theory Spec2Isabelle
  imports Complex_Main
begin

section \<open>Data model (Game.tsx, lines 6-31)\<close>

text \<open>
  The TypeScript interfaces become records. JavaScript numbers that hold positions, radii,
  speeds and time are modelled as \<^typ>\<open>real\<close>; hit points, identifiers, wave numbers and
  group counts only ever hold integers and are modelled as \<^typ>\<open>int\<close>. The rounding
  of floating-point arithmetic is not modelled: sums, products, quotients and square roots
  are the exact ones. A JavaScript
  division by zero or an arithmetic operation on \<open>undefined\<close> raises nothing: it produces
  \<open>NaN\<close> or an infinity, which no real number stands for. The model makes these two
  events explicit as values of type \<open>fault\<close>; a result \<open>Inl f\<close> says that from this point
  on the program computes with numbers that are not finite.
\<close>

record enemy_data =
  d_type :: string
  d_count :: int

record wave_data =
  w_wave :: int
  w_enemies :: "enemy_data list"

record enemy =
  e_id :: int
  e_x :: real
  e_y :: real
  e_hp :: int
  e_type :: string
  e_radius :: real

record bullet =
  b_id :: int
  b_x :: real
  b_y :: real
  b_dx :: real
  b_dy :: real
  b_radius :: real

record stats =
  s_hp :: int
  s_radius :: real
  s_speed :: real

datatype game_state = Playing | Gameover | Victory

datatype fault = Division_by_zero | Undefined_stats

text \<open>
  The component's \<open>useState\<close> cells, together with the two window dimensions it reads.
\<close>

record game =
  coreHp :: int
  waves :: "wave_data list"
  currentWave :: int
  enemies :: "enemy list"
  bullets :: "bullet list"
  gameState :: game_state
  stageWidth :: real
  stageHeight :: real

definition coreX :: "game \<Rightarrow> real" where
  "coreX s = stageWidth s / 2"

definition coreY :: "game \<Rightarrow> real" where
  "coreY s = stageHeight s / 2"

definition coreRadius :: real where
  "coreRadius = 30"

definition initial :: "real \<Rightarrow> real \<Rightarrow> game" where
  "initial w h =
     \<lparr>coreHp = 100, waves = [], currentWave = 0, enemies = [], bullets = [],
      gameState = Playing, stageWidth = w, stageHeight = h\<rparr>"

text \<open>
  \<open>Math.sqrt(Math.pow(x1 - x2, 2) + Math.pow(y1 - y2, 2))\<close>, written out four times in
  the source.
\<close>

definition distance :: "real \<Rightarrow> real \<Rightarrow> real \<Rightarrow> real \<Rightarrow> real" where
  "distance x1 y1 x2 y2 = sqrt ((x1 - x2) ^ 2 + (y1 - y2) ^ 2)"

subsection \<open>The stat table\<close>

text \<open>
  \<open>ENEMY_STATS\<close> is an object literal with the three own properties \<open>normal\<close>,
  \<open>fast\<close> and \<open>tank\<close>. The expression \<open>ENEMY_STATS[k]\<close> is a property read, so it also
  finds what every object literal inherits from \<open>Object.prototype\<close>. An inherited value
  is a function or an object: it is truthy, the \<open>||\<close> fallback is not taken, and its
  \<open>hp\<close>, \<open>radius\<close> and \<open>speed\<close> read as \<open>undefined\<close>.
\<close>

datatype 'a property = Own 'a | Inherited | Absent

definition normal_stats :: stats where
  "normal_stats = \<lparr>s_hp = 10, s_radius = 15, s_speed = 50\<rparr>"

definition fast_stats :: stats where
  "fast_stats = \<lparr>s_hp = 5, s_radius = 10, s_speed = 80\<rparr>"

definition tank_stats :: stats where
  "tank_stats = \<lparr>s_hp = 50, s_radius = 25, s_speed = 30\<rparr>"

definition object_prototype_keys :: "string list" where
  "object_prototype_keys =
     [''constructor'', ''hasOwnProperty'', ''isPrototypeOf'', ''propertyIsEnumerable'',
      ''toLocaleString'', ''toString'', ''valueOf'', ''__proto__'',
      ''__defineGetter__'', ''__defineSetter__'', ''__lookupGetter__'', ''__lookupSetter__'']"

definition ENEMY_STATS :: "string \<Rightarrow> stats property" where
  "ENEMY_STATS k =
     (if k = ''normal'' then Own normal_stats
      else if k = ''fast'' then Own fast_stats
      else if k = ''tank'' then Own tank_stats
      else if k \<in> set object_prototype_keys then Inherited
      else Absent)"

text \<open>
  \<open>ENEMY_STATS[k] || ENEMY_STATS.normal\<close>. The result \<open>None\<close> is the inherited value,
  whose three fields are \<open>undefined\<close>.
\<close>

definition stats_or_normal :: "string \<Rightarrow> stats option" where
  "stats_or_normal k =
     (case ENEMY_STATS k of Own st \<Rightarrow> Some st | Absent \<Rightarrow> Some normal_stats | Inherited \<Rightarrow> None)"

section \<open>The Wave Director: \<open>spawnWave\<close> (lines 42-73)\<close>

text \<open>
  \<open>Math.random()\<close> is a stream \<open>rnd\<close> of reals read at an increasing index, and
  \<open>Date.now()\<close> is the parameter \<open>now\<close>. Each enemy reads two random numbers: the first
  picks the side, the second the coordinate along it.
\<close>

definition place :: "real \<Rightarrow> real \<Rightarrow> stats \<Rightarrow> string \<Rightarrow> int \<Rightarrow> real \<Rightarrow> real \<Rightarrow> enemy" where
  "place w h st ty ident r1 r2 =
     (let side = \<lfloor>r1 * 4\<rfloor>;
          xy = (if side = 0 then (r2 * w, - s_radius st)
                else if side = 1 then (w + s_radius st, r2 * h)
                else if side = 2 then (r2 * w, h + s_radius st)
                else (- s_radius st, r2 * h))
      in \<lparr>e_id = ident, e_x = fst xy, e_y = snd xy, e_hp = s_hp st, e_type = ty,
          e_radius = s_radius st\<rparr>)"

text \<open>The inner \<open>for\<close> loop: \<open>n\<close> iterations, the identifier counter and the stream index
  advancing with each.\<close>

fun spawn_loop ::
  "real \<Rightarrow> real \<Rightarrow> (nat \<Rightarrow> real) \<Rightarrow> stats \<Rightarrow> string \<Rightarrow> nat \<Rightarrow> int \<Rightarrow> nat \<Rightarrow> enemy list" where
  "spawn_loop w h rnd st ty 0 idc k = []"
| "spawn_loop w h rnd st ty (Suc n) idc k =
     place w h st ty idc (rnd k) (rnd (Suc k)) # spawn_loop w h rnd st ty n (idc + 1) (k + 2)"

text \<open>
  The \<open>forEach\<close> over the groups of the wave. The loop \<open>for (i = 0; i < count; i++)\<close>
  runs \<open>nat count\<close> times, that is not at all for a count that is zero or negative. A group
  whose kind names an inherited property builds its enemies from \<open>undefined\<close> fields.
\<close>

fun spawn_groups ::
  "real \<Rightarrow> real \<Rightarrow> (nat \<Rightarrow> real) \<Rightarrow> enemy_data list \<Rightarrow> int \<Rightarrow> nat \<Rightarrow> fault + enemy list" where
  "spawn_groups w h rnd [] idc k = Inr []"
| "spawn_groups w h rnd (g # gs) idc k =
     (let n = nat (d_count g) in
      if n = 0 then spawn_groups w h rnd gs idc k
      else (case stats_or_normal (d_type g) of
              None \<Rightarrow> Inl Undefined_stats
            | Some st \<Rightarrow>
                (case spawn_groups w h rnd gs (idc + int n) (k + 2 * n) of
                   Inl f \<Rightarrow> Inl f
                 | Inr es \<Rightarrow> Inr (spawn_loop w h rnd st (d_type g) n idc k @ es))))"

definition spawnWave :: "int \<Rightarrow> (nat \<Rightarrow> real) \<Rightarrow> int \<Rightarrow> game \<Rightarrow> fault + game" where
  "spawnWave now rnd waveNumber s =
     (case find (\<lambda>w. w_wave w = waveNumber) (waves s) of
        None \<Rightarrow> Inr (s\<lparr>gameState := Victory\<rparr>)
      | Some waveData \<Rightarrow>
          (case spawn_groups (stageWidth s) (stageHeight s) rnd (w_enemies waveData) now 0 of
             Inl f \<Rightarrow> Inl f
           | Inr newEnemies \<Rightarrow> Inr (s\<lparr>enemies := newEnemies, currentWave := waveNumber\<rparr>)))"

text \<open>The effect of lines 75-79, which starts the first wave once the catalog is there.\<close>

definition bootstrap :: "int \<Rightarrow> (nat \<Rightarrow> real) \<Rightarrow> game \<Rightarrow> fault + game" where
  "bootstrap now rnd s =
     (if waves s \<noteq> [] \<and> currentWave s = 0 then spawnWave now rnd 1 s else Inr s)"

section \<open>The fire controller (lines 82-100)\<close>

text \<open>
  The comparison \<open>d < minDistance\<close>, where \<open>minDistance\<close> starts as \<open>Infinity\<close>
  (here \<open>None\<close>).
\<close>

definition closer :: "real \<Rightarrow> real option \<Rightarrow> bool" where
  "closer d minDistance = (case minDistance of None \<Rightarrow> True | Some m \<Rightarrow> d < m)"

fun nearest_scan ::
  "real \<Rightarrow> real \<Rightarrow> enemy list \<Rightarrow> enemy option \<times> real option \<Rightarrow> enemy option \<times> real option" where
  "nearest_scan cx cy [] acc = acc"
| "nearest_scan cx cy (e # es) (nearestEnemy, minDistance) =
     (let d = distance (e_x e) (e_y e) cx cy
      in nearest_scan cx cy es
           (if closer d minDistance then (Some e, Some d) else (nearestEnemy, minDistance)))"

text \<open>
  One tick of the interval. The interval exists only while the game is playing. The
  direction is computed by dividing by the distance to the nearest enemy, with no test
  of that distance.
\<close>

definition fire :: "int \<Rightarrow> game \<Rightarrow> fault + game" where
  "fire now s =
     (if gameState s \<noteq> Playing then Inr s
      else if enemies s = [] then Inr s
      else (case fst (nearest_scan (coreX s) (coreY s) (enemies s) (None, None)) of
              None \<Rightarrow> Inr s
            | Some nearestEnemy \<Rightarrow>
                (let d = distance (e_x nearestEnemy) (e_y nearestEnemy) (coreX s) (coreY s)
                 in if d = 0 then Inl Division_by_zero
                    else Inr (s\<lparr>bullets := bullets s @
                           [\<lparr>b_id = now, b_x = coreX s, b_y = coreY s,
                             b_dx = (e_x nearestEnemy - coreX s) / d,
                             b_dy = (e_y nearestEnemy - coreY s) / d,
                             b_radius = 5\<rparr>]\<rparr>))))"

section \<open>The simulation loop (lines 103-174)\<close>

definition bulletSpeed :: real where
  "bulletSpeed = 350"

definition advance :: "real \<Rightarrow> bullet \<Rightarrow> bullet" where
  "advance delta b =
     b\<lparr>b_x := b_x b + b_dx b * bulletSpeed * delta,
       b_y := b_y b + b_dy b * bulletSpeed * delta\<rparr>"

definition out_of_bounds :: "game \<Rightarrow> bullet \<Rightarrow> bool" where
  "out_of_bounds s b \<longleftrightarrow>
     b_x b < 0 \<or> b_x b > stageWidth s \<or> b_y b < 0 \<or> b_y b > stageHeight s"

definition hits :: "bullet \<Rightarrow> enemy \<Rightarrow> bool" where
  "hits b e \<longleftrightarrow> distance (b_x b) (b_y b) (e_x e) (e_y e) < e_radius e + b_radius b"

text \<open>
  \<open>bulletsToRemove\<close> and \<open>enemiesToRemove\<close> are JavaScript \<open>Set\<close>s: adding a member that
  is already there changes nothing (\<^const>\<open>List.insert\<close>). \<open>enemiesToDamage\<close> is a
  \<open>Map\<close> from enemy identifier to accumulated damage.
\<close>

definition add_damage :: "int \<Rightarrow> (int \<rightharpoonup> int) \<Rightarrow> (int \<rightharpoonup> int)" where
  "add_damage k enemiesToDamage =
     enemiesToDamage(k \<mapsto> (case enemiesToDamage k of None \<Rightarrow> 0 | Some v \<Rightarrow> v) + 10)"

text \<open>The inner \<open>forEach\<close> of lines 125-131: one advanced bullet against every enemy.\<close>

fun collide ::
  "bullet \<Rightarrow> enemy list \<Rightarrow> int list \<times> (int \<rightharpoonup> int) \<Rightarrow> int list \<times> (int \<rightharpoonup> int)" where
  "collide b [] acc = acc"
| "collide b (e # es) (bulletsToRemove, enemiesToDamage) =
     collide b es
       (if hits b e
        then (List.insert (b_id b) bulletsToRemove, add_damage (e_id e) enemiesToDamage)
        else (bulletsToRemove, enemiesToDamage))"

text \<open>
  The outer \<open>forEach\<close> of lines 118-132. The bullets are objects shared with the state, so
  the advanced positions are what the state holds afterwards; the function returns them.
\<close>

fun move_bullets ::
  "real \<Rightarrow> game \<Rightarrow> bullet list \<Rightarrow> int list \<times> (int \<rightharpoonup> int) \<Rightarrow>
   bullet list \<times> int list \<times> (int \<rightharpoonup> int)" where
  "move_bullets delta s [] acc = ([], acc)"
| "move_bullets delta s (b # bs) (bulletsToRemove, enemiesToDamage) =
     (let b' = advance delta b;
          marked = (if out_of_bounds s b' then List.insert (b_id b') bulletsToRemove
                    else bulletsToRemove);
          acc' = collide b' (enemies s) (marked, enemiesToDamage);
          (bs', acc'') = move_bullets delta s bs acc'
      in (b' # bs', acc''))"

text \<open>
  The body of the second loop (lines 137-156) for one enemy: the enemy as the body leaves
  it, and which of the three exits was taken.
\<close>

datatype fate = Dead | Reached_core | Moved

definition enemy_step ::
  "real \<Rightarrow> game \<Rightarrow> (int \<rightharpoonup> int) \<Rightarrow> enemy \<Rightarrow> fault + (enemy \<times> fate)" where
  "enemy_step delta s enemiesToDamage e =
     (let e1 = (case enemiesToDamage (e_id e) of
                  None \<Rightarrow> e
                | Some d \<Rightarrow> e\<lparr>e_hp := e_hp e - d\<rparr>)
      in if e_hp e1 \<le> 0 then Inr (e1, Dead)
         else
           (let distToCore = distance (e_x e1) (e_y e1) (coreX s) (coreY s)
            in if distToCore < coreRadius + e_radius e1 then Inr (e1, Reached_core)
               else if distToCore = 0 then Inl Division_by_zero
               else (case stats_or_normal (e_type e1) of
                       None \<Rightarrow> Inl Undefined_stats
                     | Some st \<Rightarrow>
                         Inr (e1\<lparr>e_x := e_x e1 +
                                    ((coreX s - e_x e1) / distToCore) * s_speed st * delta,
                                  e_y := e_y e1 +
                                    ((coreY s - e_y e1) / distToCore) * s_speed st * delta\<rparr>,
                              Moved))))"

text \<open>The second loop, threading \<open>enemiesToRemove\<close> and \<open>newCoreHp\<close>.\<close>

fun move_enemies ::
  "real \<Rightarrow> game \<Rightarrow> (int \<rightharpoonup> int) \<Rightarrow> enemy list \<Rightarrow> int list \<times> int \<Rightarrow>
   fault + (enemy list \<times> int list \<times> int)" where
  "move_enemies delta s enemiesToDamage [] acc = Inr ([], acc)"
| "move_enemies delta s enemiesToDamage (e # es) (enemiesToRemove, newCoreHp) =
     (case enemy_step delta s enemiesToDamage e of
        Inl f \<Rightarrow> Inl f
      | Inr (e', ft) \<Rightarrow>
          (case move_enemies delta s enemiesToDamage es
                  (if ft = Moved then enemiesToRemove
                   else List.insert (e_id e') enemiesToRemove,
                   if ft = Reached_core then newCoreHp - 10 else newCoreHp) of
             Inl f \<Rightarrow> Inl f
           | Inr (es', acc') \<Rightarrow> Inr (e' # es', acc')))"

text \<open>
  The two loops seen from outside: the local variables of the callback after the first
  loop, as functions of the frame's time step and of the state the callback closes over.
\<close>

definition updatedBullets :: "real \<Rightarrow> game \<Rightarrow> bullet list" where
  "updatedBullets delta s = fst (move_bullets delta s (bullets s) ([], Map.empty))"

definition bulletsToRemove :: "real \<Rightarrow> game \<Rightarrow> int list" where
  "bulletsToRemove delta s = fst (snd (move_bullets delta s (bullets s) ([], Map.empty)))"

definition enemiesToDamage :: "real \<Rightarrow> game \<Rightarrow> (int \<rightharpoonup> int)" where
  "enemiesToDamage delta s = snd (snd (move_bullets delta s (bullets s) ([], Map.empty)))"

text \<open>Lines 110-162: both loops, then the three state updates.\<close>

definition commit :: "real \<Rightarrow> game \<Rightarrow> fault + game" where
  "commit delta s =
     (case move_enemies delta s (enemiesToDamage delta s) (enemies s) ([], coreHp s) of
        Inl f \<Rightarrow> Inl f
      | Inr (updatedEnemies, enemiesToRemove, newCoreHp) \<Rightarrow>
          Inr (s\<lparr>bullets := filter (\<lambda>b. b_id b \<notin> set (bulletsToRemove delta s))
                               (updatedBullets delta s),
                 enemies := filter (\<lambda>e. e_id e \<notin> set enemiesToRemove) updatedEnemies,
                 coreHp := newCoreHp\<rparr>))"

text \<open>
  One call of the animation callback. The effect installs the callback only while the
  game is playing. After the commit, lines 165-169 decide the game state; \<open>spawnWave\<close>
  sets the enemies after the commit did, so its enemies are the ones that stay.
\<close>

definition frame :: "real \<Rightarrow> int \<Rightarrow> (nat \<Rightarrow> real) \<Rightarrow> game \<Rightarrow> fault + game" where
  "frame delta now rnd s =
     (if gameState s \<noteq> Playing then Inr s
      else
        (case commit delta s of
           Inl f \<Rightarrow> Inl f
         | Inr s1 \<Rightarrow>
             if coreHp s1 \<le> 0 then Inr (s1\<lparr>gameState := Gameover\<rparr>)
             else if enemies s1 = [] \<and> waves s \<noteq> []
             then spawnWave now rnd (currentWave s + 1) s1
             else Inr s1))"

section \<open>The component as a transition system\<close>

text \<open>
  What can happen to the component: the catalog arrives (the fetch of lines 36-40 runs
  once, so a catalog is accepted only while none is there), the bootstrap effect runs, a
  frame is drawn, the fire interval ticks. Each event is one callback of the source, run
  to its end on the current state: the callbacks close over the state of the latest
  render, and every state update of a callback is taken to be rendered before the next
  callback runs. React runs the bootstrap effect when the catalog or the wave number
  changed; here it may run at any time, which allows more runs than React makes. The
  time step of a frame, the clock and the random numbers are inputs of the events and
  are not constrained.
\<close>

datatype event =
    Load_waves "wave_data list"
  | Bootstrap int "nat \<Rightarrow> real"
  | Frame real int "nat \<Rightarrow> real"
  | Fire_tick int

fun step :: "event \<Rightarrow> game \<Rightarrow> fault + game" where
  "step (Load_waves ws) s = Inr (if waves s = [] then s\<lparr>waves := ws\<rparr> else s)"
| "step (Bootstrap now rnd) s = bootstrap now rnd s"
| "step (Frame delta now rnd) s = frame delta now rnd s"
| "step (Fire_tick now) s = fire now s"

fun run :: "event list \<Rightarrow> game \<Rightarrow> fault + game" where
  "run [] s = Inr s"
| "run (ev # evs) s = (case step ev s of Inl f \<Rightarrow> Inl f | Inr s' \<Rightarrow> run evs s')"

text \<open>The states the component can be in: those some sequence of events leads to.\<close>

inductive reachable :: "game \<Rightarrow> bool" where
  reachable_initial: "reachable (initial w h)"
| reachable_step: "reachable s \<Longrightarrow> step ev s = Inr s' \<Longrightarrow> reachable s'"

section \<open>Notions used to state the properties\<close>

text \<open>The damage recorded for an identifier: \<open>enemiesToDamage.get(k) || 0\<close>.\<close>

definition total :: "(int \<rightharpoonup> int) \<Rightarrow> int \<Rightarrow> int" where
  "total m k = (case m k of None \<Rightarrow> 0 | Some v \<Rightarrow> v)"

text \<open>A bullet is marked when its advanced position is out of bounds or within reach of an enemy.\<close>

definition marked :: "real \<Rightarrow> game \<Rightarrow> bullet \<Rightarrow> bool" where
  "marked delta s b \<longleftrightarrow>
     out_of_bounds s (advance delta b) \<or> (\<exists>e\<in>set (enemies s). hits (advance delta b) e)"

text \<open>The hit points of an enemy once the damage recorded for its identifier is subtracted.\<close>

definition hp_after :: "(int \<rightharpoonup> int) \<Rightarrow> enemy \<Rightarrow> int" where
  "hp_after dmg e = e_hp e - total dmg (e_id e)"

text \<open>The test of line 146.\<close>

definition reaches_core :: "game \<Rightarrow> enemy \<Rightarrow> bool" where
  "reaches_core s e \<longleftrightarrow>
     distance (e_x e) (e_y e) (coreX s) (coreY s) < coreRadius + e_radius e"

text \<open>
  A worked example on an 800 by 600 stage: the catalog holds one wave of one tank, the tank
  appears at the middle of the top edge and the turret has fired once at it.
\<close>

definition tank_catalog :: "wave_data list" where
  "tank_catalog = [\<lparr>w_wave = 1, w_enemies = [\<lparr>d_type = ''tank'', d_count = 1\<rparr>]\<rparr>]"

definition top_centre :: "nat \<Rightarrow> real" where
  "top_centre k = (if k = 0 then 0 else 1 / 2)"

definition tank_enemy :: enemy where
  "tank_enemy = \<lparr>e_id = 1000, e_x = 400, e_y = - 25, e_hp = 50, e_type = ''tank'', e_radius = 25\<rparr>"

definition upward_bullet :: "int \<Rightarrow> bullet" where
  "upward_bullet i = \<lparr>b_id = i, b_x = 400, b_y = 300, b_dx = 0, b_dy = - 1, b_radius = 5\<rparr>"

definition tank_state :: game where
  "tank_state =
     \<lparr>coreHp = 100, waves = tank_catalog, currentWave = 1, enemies = [tank_enemy],
      bullets = [upward_bullet 2000], gameState = Playing, stageWidth = 800, stageHeight = 600\<rparr>"

text \<open>
  What holds of every state the component can reach; each line is kept by every event.
\<close>

definition invariant :: "game \<Rightarrow> bool" where
  "invariant s \<longleftrightarrow>
     0 \<le> currentWave s \<and>
     (currentWave s = 0 \<longrightarrow> enemies s = []) \<and>
     (currentWave s \<noteq> 0 \<longrightarrow> waves s \<noteq> []) \<and>
     (gameState s = Playing \<longrightarrow> 0 < coreHp s) \<and>
     (gameState s = Gameover \<longrightarrow> currentWave s \<noteq> 0) \<and>
     (gameState s = Victory \<longrightarrow>
        waves s \<noteq> [] \<and> find (\<lambda>w. w_wave w = currentWave s + 1) (waves s) = None) \<and>
     (\<forall>e\<in>set (enemies s). 0 < e_radius e \<and> 0 < e_hp e \<and> stats_or_normal (e_type e) \<noteq> None) \<and>
     distinct (map e_id (enemies s))"

text \<open>
  Further examples: a catalog whose first wave is missing, a catalog with an empty first
  wave and a tank in the second, and a state in which the core has ten hit points left
  and a normal enemy stands twenty pixels below its centre.
\<close>

definition late_catalog :: "wave_data list" where
  "late_catalog = [\<lparr>w_wave = 2, w_enemies = [\<lparr>d_type = ''tank'', d_count = 1\<rparr>]\<rparr>]"

definition stalled_state :: game where
  "stalled_state = (initial 800 600)\<lparr>waves := late_catalog, gameState := Victory\<rparr>"

definition two_wave_catalog :: "wave_data list" where
  "two_wave_catalog =
     [\<lparr>w_wave = 1, w_enemies = []\<rparr>,
      \<lparr>w_wave = 2, w_enemies = [\<lparr>d_type = ''tank'', d_count = 1\<rparr>]\<rparr>]"

definition cleared_state :: game where
  "cleared_state = (initial 800 600)\<lparr>waves := two_wave_catalog, currentWave := 1\<rparr>"

definition last_stand :: game where
  "last_stand =
     \<lparr>coreHp = 10, waves = two_wave_catalog, currentWave = 1,
      enemies = [\<lparr>e_id = 7, e_x = 400, e_y = 320, e_hp = 10, e_type = ''normal'', e_radius = 15\<rparr>],
      bullets = [], gameState = Playing, stageWidth = 800, stageHeight = 600\<rparr>"

text \<open>The number of bullets whose advanced position is within reach of an enemy.\<close>

definition hit_count :: "real \<Rightarrow> game \<Rightarrow> enemy \<Rightarrow> nat" where
  "hit_count delta s e = length (filter (\<lambda>b. hits (advance delta b) e) (bullets s))"

text \<open>
  Two more examples. In the first the catalog holds one wave of one fast enemy, which
  appears at the middle of the top edge, and the turret has fired twice at it. In the
  second the fast enemy appears at the middle of the right edge and a frame of 5.125
  seconds has carried it exactly onto the centre of the core.
\<close>

definition fast_catalog :: "wave_data list" where
  "fast_catalog = [\<lparr>w_wave = 1, w_enemies = [\<lparr>d_type = ''fast'', d_count = 1\<rparr>]\<rparr>]"

definition fast_enemy :: enemy where
  "fast_enemy = \<lparr>e_id = 1000, e_x = 400, e_y = - 10, e_hp = 5, e_type = ''fast'', e_radius = 10\<rparr>"

definition volley_state :: game where
  "volley_state =
     \<lparr>coreHp = 100, waves = fast_catalog, currentWave = 1, enemies = [fast_enemy],
      bullets = [upward_bullet 2000, upward_bullet 2400], gameState = Playing,
      stageWidth = 800, stageHeight = 600\<rparr>"

definition right_centre :: "nat \<Rightarrow> real" where
  "right_centre k = (if k = 0 then 1 / 4 else 1 / 2)"

definition centre_state :: game where
  "centre_state =
     \<lparr>coreHp = 100, waves = fast_catalog, currentWave = 1,
      enemies = [fast_enemy\<lparr>e_x := 400, e_y := 300\<rparr>],
      bullets = [], gameState = Playing, stageWidth = 800, stageHeight = 600\<rparr>"

text \<open>
  The profile a kind is meant to have: its own entry in the table, and the entry of
  \<open>normal\<close> for every other kind.
\<close>

definition profile :: "string \<Rightarrow> stats" where
  "profile k = (case ENEMY_STATS k of Own st \<Rightarrow> st | Inherited \<Rightarrow> normal_stats | Absent \<Rightarrow> normal_stats)"

text \<open>
  An enemy sits on one of the four lines that run parallel to the viewport's edges at the
  distance of its radius outside, at a coordinate within the viewport's extent.
\<close>

definition on_edge :: "real \<Rightarrow> real \<Rightarrow> enemy \<Rightarrow> bool" where
  "on_edge w h e \<longleftrightarrow>
     (e_y e = - e_radius e \<and> 0 \<le> e_x e \<and> e_x e \<le> w) \<or>
     (e_x e = w + e_radius e \<and> 0 \<le> e_y e \<and> e_y e \<le> h) \<or>
     (e_y e = h + e_radius e \<and> 0 \<le> e_x e \<and> e_x e \<le> w) \<or>
     (e_x e = - e_radius e \<and> 0 \<le> e_y e \<and> e_y e \<le> h)"

text \<open>The distance the fire controller computes for an enemy.\<close>

definition distToCore :: "game \<Rightarrow> enemy \<Rightarrow> real" where
  "distToCore s e = distance (e_x e) (e_y e) (coreX s) (coreY s)"

text \<open>A catalog whose only group names a property every object inherits.\<close>

definition constructor_catalog :: "wave_data list" where
  "constructor_catalog = [\<lparr>w_wave = 1, w_enemies = [\<lparr>d_type = ''constructor'', d_count = 1\<rparr>]\<rparr>]"

section \<open>Lemmas about the loops\<close>

lemma distance_vertical: "distance x y1 x y2 = \<bar>y1 - y2\<bar>"
  by (simp add: distance_def)
lemma distance_horizontal: "distance x1 y x2 y = \<bar>x1 - x2\<bar>"
  by (simp add: distance_def)
lemma distance_zero_iff: "distance x1 y1 x2 y2 = 0 \<longleftrightarrow> x1 = x2 \<and> y1 = y2"
  by (simp add: distance_def)
lemma distance_self: "distance x y x y = 0"
  by (simp add: distance_def)
lemma distance_nonneg: "0 \<le> distance x1 y1 x2 y2"
  by (simp add: distance_def)

lemma total_add_damage: "total (add_damage j m) k = total m k + (if j = k then 10 else 0)"
  by (simp add: total_def add_damage_def)

lemma add_damage_None: "add_damage j m k = None \<longleftrightarrow> j \<noteq> k \<and> m k = None"
  by (simp add: add_damage_def)

lemma fst_collide:
  "fst (collide b es (rm, dmg)) = (if \<exists>e\<in>set es. hits b e then List.insert (b_id b) rm else rm)"
  by (induction es arbitrary: rm dmg) auto

lemma total_collide:
  "total (snd (collide b es (rm, dmg))) k =
     total dmg k + 10 * int (length (filter (\<lambda>e. hits b e \<and> e_id e = k) es))"
  by (induction es arbitrary: rm dmg) (auto simp: total_add_damage)

lemma collide_None:
  "snd (collide b es (rm, dmg)) k = None \<longleftrightarrow>
     dmg k = None \<and> filter (\<lambda>e. hits b e \<and> e_id e = k) es = []"
  by (induction es arbitrary: rm dmg) (auto simp: add_damage_None)

lemma b_id_advance: "b_id (advance delta b) = b_id b"
  by (simp add: advance_def)

lemma move_bullets_Cons:
  "move_bullets delta s (b # bs) (rm, dmg) =
     (advance delta b #
        fst (move_bullets delta s bs
          (if marked delta s b then List.insert (b_id b) rm else rm,
           snd (collide (advance delta b) (enemies s) (rm, dmg)))),
      snd (move_bullets delta s bs
          (if marked delta s b then List.insert (b_id b) rm else rm,
           snd (collide (advance delta b) (enemies s) (rm, dmg)))))"
proof -
  have snd_eq: "snd (collide b' es (rm1, dmg)) = snd (collide b' es (rm2, dmg))" for b' es rm1 rm2
    by (induction es arbitrary: rm1 rm2 dmg) auto
  have "collide (advance delta b) (enemies s)
          (if out_of_bounds s (advance delta b) then List.insert (b_id (advance delta b)) rm else rm, dmg) =
        (if marked delta s b then List.insert (b_id b) rm else rm,
         snd (collide (advance delta b) (enemies s) (rm, dmg)))"
    by (rule prod_eqI) (auto simp: fst_collide marked_def b_id_advance intro: snd_eq)
  then show ?thesis
    by (simp add: Let_def split: prod.splits)
qed

lemma fst_move_bullets: "fst (move_bullets delta s bs acc) = map (advance delta) bs"
proof (induction bs arbitrary: acc)
  case Nil
  then show ?case by simp
next
  case (Cons b bs)
  then show ?case by (cases acc) (simp add: move_bullets_Cons del: move_bullets.simps)
qed

lemma set_move_bullets:
  "set (fst (snd (move_bullets delta s bs (rm, dmg)))) =
     set rm \<union> b_id ` {b \<in> set bs. marked delta s b}"
proof (induction bs arbitrary: rm dmg)
  case Nil
  then show ?case by simp
next
  case (Cons b bs)
  then show ?case by (auto simp: move_bullets_Cons simp del: move_bullets.simps)
qed

lemma distinct_move_bullets:
  "distinct rm \<Longrightarrow> distinct (fst (snd (move_bullets delta s bs (rm, dmg))))"
proof (induction bs arbitrary: rm dmg)
  case Nil
  then show ?case by simp
next
  case (Cons b bs)
  then show ?case by (simp add: move_bullets_Cons del: move_bullets.simps)
qed

lemma total_move_bullets:
  "total (snd (snd (move_bullets delta s bs (rm, dmg)))) k =
     total dmg k +
     10 * (\<Sum>b\<leftarrow>bs. int (length (filter (\<lambda>e. hits (advance delta b) e \<and> e_id e = k) (enemies s))))"
proof (induction bs arbitrary: rm dmg)
  case Nil
  then show ?case by simp
next
  case (Cons b bs)
  then show ?case
    by (simp add: move_bullets_Cons total_collide del: move_bullets.simps)
qed

lemma move_bullets_None:
  "snd (snd (move_bullets delta s bs (rm, dmg))) k = None \<longleftrightarrow>
     dmg k = None \<and> (\<forall>b\<in>set bs. filter (\<lambda>e. hits (advance delta b) e \<and> e_id e = k) (enemies s) = [])"
proof (induction bs arbitrary: rm dmg)
  case Nil
  then show ?case by simp
next
  case (Cons b bs)
  then show ?case
    by (simp add: move_bullets_Cons collide_None del: move_bullets.simps)
qed

lemma count_distinct_id:
  "distinct (map e_id es) \<Longrightarrow> e \<in> set es \<Longrightarrow>
   length (filter (\<lambda>e'. P e' \<and> e_id e' = e_id e) es) = (if P e then 1 else 0)"
proof (induction es)
  case Nil
  then show ?case by simp
next
  case (Cons a es)
  show ?case
  proof (cases "a = e")
    case True
    then have "filter (\<lambda>e'. P e' \<and> e_id e' = e_id e) es = []"
      using Cons.prems by (auto simp: filter_empty_conv image_iff)
    then show ?thesis using True by simp
  next
    case False
    then have "e \<in> set es" "e_id a \<noteq> e_id e" using Cons.prems by auto
    then show ?thesis using Cons by simp
  qed
qed

lemma damaged_enemy:
  "(case dmg (e_id e) of None \<Rightarrow> e | Some d \<Rightarrow> e\<lparr>e_hp := e_hp e - d\<rparr>) = e\<lparr>e_hp := hp_after dmg e\<rparr>"
  by (simp add: hp_after_def total_def split: option.splits)

lemma enemy_step_Dead:
  "hp_after dmg e \<le> 0 \<Longrightarrow> enemy_step delta s dmg e = Inr (e\<lparr>e_hp := hp_after dmg e\<rparr>, Dead)"
  by (simp add: enemy_step_def damaged_enemy)

lemma enemy_step_Reached_core:
  "0 < hp_after dmg e \<Longrightarrow> reaches_core s e \<Longrightarrow>
   enemy_step delta s dmg e = Inr (e\<lparr>e_hp := hp_after dmg e\<rparr>, Reached_core)"
  by (simp add: enemy_step_def damaged_enemy reaches_core_def)

lemma enemy_step_Inr:
  assumes "enemy_step delta s dmg e = Inr (e', ft)"
  shows "e_id e' = e_id e" and "e_radius e' = e_radius e" and "e_type e' = e_type e"
    and "e_hp e' = hp_after dmg e"
    and "ft = Dead \<longleftrightarrow> hp_after dmg e \<le> 0"
    and "ft = Reached_core \<longleftrightarrow> 0 < hp_after dmg e \<and> reaches_core s e"
    and "ft = Moved \<Longrightarrow> stats_or_normal (e_type e) \<noteq> None"
  using assms
  by (auto simp: enemy_step_def damaged_enemy reaches_core_def Let_def
           split: if_splits option.splits)

lemma enemy_step_Division_by_zero:
  assumes "enemy_step delta s dmg e = Inl Division_by_zero"
  shows "e_x e = coreX s \<and> e_y e = coreY s \<and> e_radius e \<le> - coreRadius \<and> 0 < hp_after dmg e"
  using assms
  by (auto simp: enemy_step_def damaged_enemy Let_def distance_zero_iff distance_self
           split: if_splits option.splits)

lemma enemy_step_Undefined_stats:
  assumes "enemy_step delta s dmg e = Inl Undefined_stats"
  shows "stats_or_normal (e_type e) = None"
  using assms
  by (auto simp: enemy_step_def damaged_enemy Let_def split: if_splits option.splits)

lemma move_enemies_Cons_Inr:
  assumes "move_enemies delta s dmg (e # es) (rm, chp) = Inr (es', acc')"
  obtains e' ft es1 where "enemy_step delta s dmg e = Inr (e', ft)"
    and "move_enemies delta s dmg es
           (if ft = Moved then rm else List.insert (e_id e') rm,
            if ft = Reached_core then chp - 10 else chp) = Inr (es1, acc')"
    and "es' = e' # es1"
  using assms by (auto split: sum.splits prod.splits)

lemma move_enemies_Inr:
  assumes "move_enemies delta s dmg es (rm, chp) = Inr (es', rm', chp')"
  shows "list_all2 (\<lambda>e e'. \<exists>ft. enemy_step delta s dmg e = Inr (e', ft)) es es' \<and>
         set rm' = set rm \<union> e_id ` {e \<in> set es. hp_after dmg e \<le> 0 \<or> reaches_core s e} \<and>
         chp' = chp - 10 * int (length (filter (\<lambda>e. 0 < hp_after dmg e \<and> reaches_core s e) es))"
  using assms
proof (induction es arbitrary: rm chp es' rm' chp')
  case Nil
  then show ?case by simp
next
  case (Cons e es)
  from Cons.prems obtain e' ft es1 where
    st: "enemy_step delta s dmg e = Inr (e', ft)" and
    rest: "move_enemies delta s dmg es
           (if ft = Moved then rm else List.insert (e_id e') rm,
            if ft = Reached_core then chp - 10 else chp) = Inr (es1, rm', chp')" and
    es': "es' = e' # es1"
    by (rule move_enemies_Cons_Inr)
  note ih = Cons.IH [OF rest]
  note props = enemy_step_Inr [OF st]
  have moved: "ft = Moved \<longleftrightarrow> \<not> (hp_after dmg e \<le> 0 \<or> reaches_core s e)"
    using props(5,6) by (cases ft) auto
  have "list_all2 (\<lambda>e e'. \<exists>ft. enemy_step delta s dmg e = Inr (e', ft)) (e # es) es'"
    using ih st es' by auto
  moreover have "set rm' = set rm \<union> e_id ` {x \<in> set (e # es). hp_after dmg x \<le> 0 \<or> reaches_core s x}"
    using ih moved props(1) by auto
  moreover have "chp' = chp - 10 * int (length (filter (\<lambda>e. 0 < hp_after dmg e \<and> reaches_core s e) (e # es)))"
    using ih props(6) by auto
  ultimately show ?case by blast
qed

lemma move_enemies_Inl:
  "move_enemies delta s dmg es acc = Inl f \<Longrightarrow> \<exists>e\<in>set es. enemy_step delta s dmg e = Inl f"
proof (induction es arbitrary: acc)
  case Nil
  then show ?case by simp
next
  case (Cons e es)
  then show ?case
    by (cases acc) (auto split: sum.splits prod.splits)
qed

lemma list_all2_enemy_step_ids:
  "list_all2 (\<lambda>e e'. \<exists>ft. enemy_step delta s dmg e = Inr (e', ft)) es es' \<Longrightarrow>
   map e_id es' = map e_id es"
  by (induction es es' rule: list_all2_induct) (auto dest: enemy_step_Inr(1))

lemma commit_Inr:
  assumes "commit delta s = Inr s1"
  obtains es' rm' where
    "move_enemies delta s (enemiesToDamage delta s) (enemies s) ([], coreHp s) =
       Inr (es', rm', coreHp s1)"
    and "enemies s1 = filter (\<lambda>e. e_id e \<notin> set rm') es'"
    and "bullets s1 = filter (\<lambda>b. b_id b \<notin> set (bulletsToRemove delta s)) (updatedBullets delta s)"
    and "waves s1 = waves s" and "currentWave s1 = currentWave s"
    and "gameState s1 = gameState s"
    and "stageWidth s1 = stageWidth s" and "stageHeight s1 = stageHeight s"
  using assms by (auto simp: commit_def split: sum.splits prod.splits)

lemma commit_coreHp:
  assumes "commit delta s = Inr s1"
  shows "coreHp s1 = coreHp s - 10 * int (length (filter
           (\<lambda>e. 0 < hp_after (enemiesToDamage delta s) e \<and> reaches_core s e) (enemies s)))"
  using assms by (elim commit_Inr) (drule move_enemies_Inr, simp)

lemma commit_removed:
  assumes "commit delta s = Inr s1" and "e \<in> set (enemies s)"
    and "hp_after (enemiesToDamage delta s) e \<le> 0 \<or> reaches_core s e"
  shows "e_id e \<notin> e_id ` set (enemies s1)"
proof -
  from assms(1) obtain es' rm' where
    mv: "move_enemies delta s (enemiesToDamage delta s) (enemies s) ([], coreHp s) =
       Inr (es', rm', coreHp s1)" and
    en: "enemies s1 = filter (\<lambda>e. e_id e \<notin> set rm') es'"
    by (rule commit_Inr)
  have "set rm' = set [] \<union> e_id ` {e \<in> set (enemies s).
          hp_after (enemiesToDamage delta s) e \<le> 0 \<or> reaches_core s e}"
    using move_enemies_Inr [OF mv] by blast
  then have "e_id e \<in> set rm'" using assms(2,3) by blast
  then show ?thesis unfolding en by auto
qed

lemma commit_survivor:
  assumes "commit delta s = Inr s1" and "e1 \<in> set (enemies s1)"
  shows "\<exists>e\<in>set (enemies s). enemy_step delta s (enemiesToDamage delta s) e = Inr (e1, Moved)"
proof -
  from assms(1) obtain es' rm' where
    mv: "move_enemies delta s (enemiesToDamage delta s) (enemies s) ([], coreHp s) =
       Inr (es', rm', coreHp s1)" and
    en: "enemies s1 = filter (\<lambda>e. e_id e \<notin> set rm') es'"
    by (rule commit_Inr)
  have all2: "list_all2 (\<lambda>e e'. \<exists>ft. enemy_step delta s (enemiesToDamage delta s) e = Inr (e', ft))
                (enemies s) es'"
    and rm: "set rm' = set [] \<union> e_id ` {e \<in> set (enemies s).
          hp_after (enemiesToDamage delta s) e \<le> 0 \<or> reaches_core s e}"
    using move_enemies_Inr [OF mv] by blast+
  from assms(2) en have in': "e1 \<in> set es'" and notrm: "e_id e1 \<notin> set rm'" by auto
  from in' obtain i where i: "i < length es'" "es' ! i = e1"
    by (auto simp: in_set_conv_nth)
  from all2 i obtain ft where len: "length (enemies s) = length es'"
    and st: "enemy_step delta s (enemiesToDamage delta s) (enemies s ! i) = Inr (e1, ft)"
    by (auto simp: list_all2_conv_all_nth)
  define e where "e = enemies s ! i"
  have e: "e \<in> set (enemies s)" using i len by (simp add: e_def)
  have st': "enemy_step delta s (enemiesToDamage delta s) e = Inr (e1, ft)"
    using st by (simp add: e_def)
  have "ft = Moved"
  proof (rule ccontr)
    assume "ft \<noteq> Moved"
    then have "hp_after (enemiesToDamage delta s) e \<le> 0 \<or> reaches_core s e"
      using enemy_step_Inr(5,6) [OF st'] by (cases ft) auto
    then have "e_id e \<in> set rm'" using rm e by blast
    then show False using notrm enemy_step_Inr(1) [OF st'] by simp
  qed
  then show ?thesis using e st' by auto
qed

lemma commit_distinct:
  assumes "commit delta s = Inr s1" and "distinct (map e_id (enemies s))"
  shows "distinct (map e_id (enemies s1))"
proof -
  from assms(1) obtain es' rm' where
    mv: "move_enemies delta s (enemiesToDamage delta s) (enemies s) ([], coreHp s) =
       Inr (es', rm', coreHp s1)" and
    en: "enemies s1 = filter (\<lambda>e. e_id e \<notin> set rm') es'"
    by (rule commit_Inr)
  have "map e_id es' = map e_id (enemies s)"
    using move_enemies_Inr [OF mv] list_all2_enemy_step_ids by blast
  then have "distinct (map e_id es')" using assms(2) by simp
  then show ?thesis unfolding en by (rule distinct_map_filter)
qed

lemma commit_empty: "enemies s = [] \<Longrightarrow> \<exists>s1. commit delta s = Inr s1 \<and> enemies s1 = [] \<and> coreHp s1 = coreHp s"
  by (simp add: commit_def)

lemma commit_bullets:
  assumes "commit delta s = Inr s1"
  shows "bullets s1 = filter (\<lambda>b'. b_id b' \<notin> b_id ` {b \<in> set (bullets s). marked delta s b})
                        (map (advance delta) (bullets s))"
  using assms
  by (elim commit_Inr) (simp add: bulletsToRemove_def updatedBullets_def set_move_bullets fst_move_bullets)

lemma spawnWave_Inr:
  assumes "spawnWave now rnd n s = Inr s'"
  shows "bullets s' = bullets s" and "coreHp s' = coreHp s" and "waves s' = waves s"
    and "stageWidth s' = stageWidth s" and "stageHeight s' = stageHeight s"
    and "gameState s' = gameState s \<or> gameState s' = Victory"
    and "currentWave s' = currentWave s \<or> currentWave s' = n"
  using assms by (auto simp: spawnWave_def split: option.splits sum.splits)

lemma frame_Playing_Inr:
  assumes "gameState s = Playing" and "frame delta now rnd s = Inr s'"
  obtains s1 where "commit delta s = Inr s1"
    and "s' = (if coreHp s1 \<le> 0 then s1\<lparr>gameState := Gameover\<rparr> else s1) \<or>
         (0 < coreHp s1 \<and> enemies s1 = [] \<and> waves s \<noteq> [] \<and>
          spawnWave now rnd (currentWave s + 1) s1 = Inr s')"
proof (cases "commit delta s")
  case (Inl f)
  with assms show ?thesis by (simp add: frame_def)
next
  case (Inr s1)
  with assms have
    "s' = (if coreHp s1 \<le> 0 then s1\<lparr>gameState := Gameover\<rparr> else s1) \<or>
         (0 < coreHp s1 \<and> enemies s1 = [] \<and> waves s \<noteq> [] \<and>
          spawnWave now rnd (currentWave s + 1) s1 = Inr s')"
    by (simp add: frame_def split: if_splits)
  with Inr that show ?thesis by blast
qed

lemma frame_bullets_coreHp:
  assumes "gameState s = Playing" and "frame delta now rnd s = Inr s'"
  obtains s1 where "commit delta s = Inr s1" and "bullets s' = bullets s1"
    and "coreHp s' = coreHp s1"
proof -
  from assms obtain s1 where c: "commit delta s = Inr s1"
    and cases: "s' = (if coreHp s1 \<le> 0 then s1\<lparr>gameState := Gameover\<rparr> else s1) \<or>
         (0 < coreHp s1 \<and> enemies s1 = [] \<and> waves s \<noteq> [] \<and>
          spawnWave now rnd (currentWave s + 1) s1 = Inr s')"
    by (rule frame_Playing_Inr)
  from cases have "bullets s' = bullets s1 \<and> coreHp s' = coreHp s1"
  proof
    assume "s' = (if coreHp s1 \<le> 0 then s1\<lparr>gameState := Gameover\<rparr> else s1)"
    then show ?thesis by simp
  next
    assume "0 < coreHp s1 \<and> enemies s1 = [] \<and> waves s \<noteq> [] \<and>
          spawnWave now rnd (currentWave s + 1) s1 = Inr s'"
    then show ?thesis using spawnWave_Inr(1,2) by blast
  qed
  with c that show thesis by blast
qed

lemma stats_or_normal_Some:
  "stats_or_normal k = Some st \<Longrightarrow> st = normal_stats \<or> st = fast_stats \<or> st = tank_stats"
  by (auto simp: stats_or_normal_def ENEMY_STATS_def split: if_splits)

lemma stats_positive:
  "stats_or_normal k = Some st \<Longrightarrow> 0 < s_radius st \<and> 0 < s_hp st"
  by (auto dest!: stats_or_normal_Some simp: normal_stats_def fast_stats_def tank_stats_def)

lemma place_fields:
  "e_id (place w h st ty i r1 r2) = i" "e_hp (place w h st ty i r1 r2) = s_hp st"
  "e_type (place w h st ty i r1 r2) = ty" "e_radius (place w h st ty i r1 r2) = s_radius st"
  by (simp_all add: place_def Let_def)

lemma length_spawn_loop: "length (spawn_loop w h rnd st ty n idc k) = n"
  by (induction n arbitrary: idc k) auto

lemma spawn_loop_fields:
  "e \<in> set (spawn_loop w h rnd st ty n idc k) \<Longrightarrow>
   e_hp e = s_hp st \<and> e_type e = ty \<and> e_radius e = s_radius st"
  by (induction n arbitrary: idc k) (auto simp: place_fields)

lemma spawn_loop_ids:
  "map e_id (spawn_loop w h rnd st ty n idc k) = map (\<lambda>i. idc + int i) [0..<n]"
proof (induction n arbitrary: idc k)
  case 0
  then show ?case by simp
next
  case (Suc n)
  have "map (\<lambda>i. idc + int i) [0..<Suc n] = idc # map (\<lambda>i. idc + 1 + int i) [0..<n]"
    by (simp add: upt_conv_Cons map_Suc_upt [symmetric] del: upt_Suc)
  then show ?case using Suc.IH [of "idc + 1" "k + 2"] by (simp add: place_fields del: upt_Suc)
qed

lemma spawn_groups_Cons_Inr:
  assumes "spawn_groups w h rnd (g # gs) idc k = Inr es"
  obtains "nat (d_count g) = 0" and "spawn_groups w h rnd gs idc k = Inr es"
  | st es1 where "nat (d_count g) \<noteq> 0" and "stats_or_normal (d_type g) = Some st"
      and "spawn_groups w h rnd gs (idc + int (nat (d_count g))) (k + 2 * nat (d_count g)) = Inr es1"
      and "es = spawn_loop w h rnd st (d_type g) (nat (d_count g)) idc k @ es1"
  using assms by (auto simp: Let_def split: if_splits option.splits sum.splits)

lemma spawn_groups_fields:
  "spawn_groups w h rnd gs idc k = Inr es \<Longrightarrow> e \<in> set es \<Longrightarrow>
   0 < e_radius e \<and> 0 < e_hp e \<and> stats_or_normal (e_type e) \<noteq> None"
proof (induction gs arbitrary: idc k es)
  case Nil
  then show ?case by simp
next
  case (Cons g gs)
  from Cons.prems(1) show ?case
  proof (cases rule: spawn_groups_Cons_Inr)
    case 1
    then show ?thesis using Cons.IH Cons.prems(2) by blast
  next
    case (2 st es1)
    show ?thesis
    proof (cases "e \<in> set es1")
      case True
      then show ?thesis using Cons.IH 2(3) by blast
    next
      case False
      then have "e \<in> set (spawn_loop w h rnd st (d_type g) (nat (d_count g)) idc k)"
        using 2(4) Cons.prems(2) by simp
      then show ?thesis
        using spawn_loop_fields [of e w h rnd st "d_type g"] stats_positive [OF 2(2)] 2(2) by auto
    qed
  qed
qed

lemma ids_append:
  "map (\<lambda>i. idc + int i) [0..<n + m] =
     map (\<lambda>i. idc + int i) [0..<n] @ map (\<lambda>i. idc + int n + int i) [0..<m]"
proof (induction m)
  case 0
  then show ?case by simp
next
  case (Suc m)
  have "[0..<n + Suc m] = [0..<n + m] @ [n + m]" by simp
  then have "map (\<lambda>i. idc + int i) [0..<n + Suc m] =
               map (\<lambda>i. idc + int i) [0..<n + m] @ [idc + int (n + m)]"
    by (simp del: upt_Suc)
  then show ?case using Suc.IH by simp
qed

lemma spawn_groups_ids:
  "spawn_groups w h rnd gs idc k = Inr es \<Longrightarrow>
   map e_id es = map (\<lambda>i. idc + int i) [0..<length es]"
proof (induction gs arbitrary: idc k es)
  case Nil
  then show ?case by simp
next
  case (Cons g gs)
  from Cons.prems(1) show ?case
  proof (cases rule: spawn_groups_Cons_Inr)
    case 1
    then show ?thesis using Cons.IH by blast
  next
    case (2 st es1)
    define n where "n = nat (d_count g)"
    have a: "map e_id es1 = map (\<lambda>i. idc + int n + int i) [0..<length es1]"
      using Cons.IH [OF 2(3)] by (simp only: n_def)
    have l: "length es = n + length es1"
      using 2(4) by (simp only: length_append length_spawn_loop n_def)
    have "map e_id es = map (\<lambda>i. idc + int i) [0..<n] @ map e_id es1"
      using 2(4) by (simp only: map_append spawn_loop_ids n_def)
    then show ?thesis
      by (simp only: a l ids_append)
  qed
qed

lemma spawn_groups_distinct:
  assumes "spawn_groups w h rnd gs idc k = Inr es"
  shows "distinct (map e_id es)"
proof -
  have "inj_on (\<lambda>i. idc + int i) (set [0..<length es])" by (simp add: inj_on_def)
  then show ?thesis
    unfolding spawn_groups_ids [OF assms] by (simp add: distinct_map)
qed

lemma invariant_initial: "invariant (initial w h)"
  by (simp add: invariant_def initial_def)

lemma fire_Inr: "fire now s = Inr s' \<Longrightarrow> \<exists>bs. s' = s\<lparr>bullets := bs\<rparr>"
proof (cases "gameState s \<noteq> Playing \<or> enemies s = []")
  case True
  assume "fire now s = Inr s'"
  with True have "s' = s" by (auto simp: fire_def split: if_splits)
  then have "s' = s\<lparr>bullets := bullets s\<rparr>" by simp
  then show ?thesis by blast
next
  case False
  assume a: "fire now s = Inr s'"
  show ?thesis
  proof (cases "fst (nearest_scan (coreX s) (coreY s) (enemies s) (None, None))")
    case None
    with False a have "s' = s\<lparr>bullets := bullets s\<rparr>" by (simp add: fire_def)
    then show ?thesis by blast
  next
    case (Some ne)
    with False a show ?thesis
      by (simp add: fire_def Let_def split: if_splits) blast
  qed
qed

lemma invariant_bullets: "invariant (s\<lparr>bullets := bs\<rparr>) = invariant s"
  by (simp add: invariant_def)

lemma spawnWave_cases:
  assumes "spawnWave now rnd n s = Inr s'"
  obtains "find (\<lambda>w. w_wave w = n) (waves s) = None" and "s' = s\<lparr>gameState := Victory\<rparr>"
  | waveData es where "find (\<lambda>w. w_wave w = n) (waves s) = Some waveData"
      and "spawn_groups (stageWidth s) (stageHeight s) rnd (w_enemies waveData) now 0 = Inr es"
      and "s' = s\<lparr>enemies := es, currentWave := n\<rparr>"
proof (cases "find (\<lambda>w. w_wave w = n) (waves s)")
  case None
  with assms that(1) show ?thesis by (simp add: spawnWave_def)
next
  case (Some waveData)
  show ?thesis
  proof (cases "spawn_groups (stageWidth s) (stageHeight s) rnd (w_enemies waveData) now 0")
    case (Inl f)
    with Some assms show ?thesis by (simp add: spawnWave_def)
  next
    case (Inr es)
    with Some assms that(2) show ?thesis by (simp add: spawnWave_def)
  qed
qed

lemma spawnWave_invariant:
  assumes inv: "invariant s" and w: "waves s \<noteq> []"
    and sp: "spawnWave now rnd (currentWave s + 1) s = Inr s'"
  shows "invariant s'"
  using sp
proof (cases rule: spawnWave_cases)
  case 1
  with inv w show ?thesis by (simp add: invariant_def)
next
  case (2 waveData es)
  have nv: "gameState s \<noteq> Victory" using inv 2(1) by (auto simp: invariant_def)
  have f: "\<forall>e\<in>set es. 0 < e_radius e \<and> 0 < e_hp e \<and> stats_or_normal (e_type e) \<noteq> None"
    using spawn_groups_fields [OF 2(2)] by blast
  have d: "distinct (map e_id es)" using spawn_groups_distinct [OF 2(2)] .
  have cw: "0 \<le> currentWave s" using inv by (simp add: invariant_def)
  have p: "gameState s = Playing \<longrightarrow> 0 < coreHp s" using inv by (simp add: invariant_def)
  show ?thesis
    unfolding 2(3) invariant_def using nv f d cw p w by simp
qed

lemma commit_invariant:
  assumes inv: "invariant s" and pl: "gameState s = Playing" and c: "commit delta s = Inr s1"
  shows "invariant (if coreHp s1 \<le> 0 then s1\<lparr>gameState := Gameover\<rparr> else s1)"
proof -
  from c have same: "waves s1 = waves s" "currentWave s1 = currentWave s" "gameState s1 = gameState s"
    by (auto elim: commit_Inr)
  have surv: "\<forall>e1\<in>set (enemies s1). \<exists>e\<in>set (enemies s).
                enemy_step delta s (enemiesToDamage delta s) e = Inr (e1, Moved)"
    using commit_survivor [OF c] by blast
  have f: "\<forall>e1\<in>set (enemies s1). 0 < e_radius e1 \<and> 0 < e_hp e1 \<and> stats_or_normal (e_type e1) \<noteq> None"
  proof
    fix e1 assume "e1 \<in> set (enemies s1)"
    with surv obtain e where e: "e \<in> set (enemies s)"
      and st: "enemy_step delta s (enemiesToDamage delta s) e = Inr (e1, Moved)" by blast
    have "0 < e_radius e" "stats_or_normal (e_type e) \<noteq> None"
      using inv e by (auto simp: invariant_def)
    moreover have "0 < e_hp e1" using enemy_step_Inr(4,5) [OF st] by simp
    ultimately show "0 < e_radius e1 \<and> 0 < e_hp e1 \<and> stats_or_normal (e_type e1) \<noteq> None"
      using enemy_step_Inr(2,3) [OF st] by simp
  qed
  have d: "distinct (map e_id (enemies s1))"
    using commit_distinct [OF c] inv by (simp add: invariant_def)
  have empty: "enemies s = [] \<Longrightarrow> enemies s1 = [] \<and> coreHp s1 = coreHp s"
    using commit_empty [of s delta] c by auto
  have z: "currentWave s = 0 \<longrightarrow> enemies s1 = [] \<and> 0 < coreHp s1"
    using inv pl empty by (auto simp: invariant_def)
  have rest: "0 \<le> currentWave s" "currentWave s \<noteq> 0 \<longrightarrow> waves s \<noteq> []"
    using inv by (auto simp: invariant_def)
  show ?thesis
    unfolding invariant_def using same f d z rest pl by auto
qed

lemma frame_invariant:
  assumes inv: "invariant s" and fr: "frame delta now rnd s = Inr s'"
  shows "invariant s'"
proof (cases "gameState s = Playing")
  case False
  with fr inv show ?thesis by (simp add: frame_def)
next
  case True
  from True fr obtain s1 where c: "commit delta s = Inr s1"
    and cases: "s' = (if coreHp s1 \<le> 0 then s1\<lparr>gameState := Gameover\<rparr> else s1) \<or>
         (0 < coreHp s1 \<and> enemies s1 = [] \<and> waves s \<noteq> [] \<and>
          spawnWave now rnd (currentWave s + 1) s1 = Inr s')"
    by (rule frame_Playing_Inr)
  note ci = commit_invariant [OF inv True c]
  from cases show ?thesis
  proof
    assume "s' = (if coreHp s1 \<le> 0 then s1\<lparr>gameState := Gameover\<rparr> else s1)"
    with ci show ?thesis by simp
  next
    assume b: "0 < coreHp s1 \<and> enemies s1 = [] \<and> waves s \<noteq> [] \<and>
          spawnWave now rnd (currentWave s + 1) s1 = Inr s'"
    from c have same: "waves s1 = waves s" "currentWave s1 = currentWave s"
      by (auto elim: commit_Inr)
    from b ci have i1: "invariant s1" by simp
    show ?thesis
      using spawnWave_invariant [OF i1, of now rnd s'] b same by simp
  qed
qed

lemma step_invariant:
  assumes inv: "invariant s" and st: "step ev s = Inr s'"
  shows "invariant s'"
proof (cases ev)
  case (Load_waves ws)
  with st have s': "s' = (if waves s = [] then s\<lparr>waves := ws\<rparr> else s)" by simp
  show ?thesis
  proof (cases "waves s = []")
    case True
    with inv have "currentWave s = 0" "gameState s \<noteq> Victory" by (auto simp: invariant_def)
    with inv s' True show ?thesis by (simp add: invariant_def)
  next
    case False
    with s' inv show ?thesis by simp
  qed
next
  case (Bootstrap now rnd)
  show ?thesis
  proof (cases "waves s \<noteq> [] \<and> currentWave s = 0")
    case True
    with st Bootstrap have "spawnWave now rnd (currentWave s + 1) s = Inr s'"
      by (simp add: bootstrap_def)
    with inv True show ?thesis using spawnWave_invariant by blast
  next
    case False
    with st Bootstrap inv show ?thesis by (auto simp: bootstrap_def)
  qed
next
  case (Frame delta now rnd)
  with st inv show ?thesis using frame_invariant by simp
next
  case (Fire_tick now)
  with st have "fire now s = Inr s'" by simp
  then obtain bs where "s' = s\<lparr>bullets := bs\<rparr>" using fire_Inr by blast
  with inv show ?thesis by (simp add: invariant_bullets)
qed

lemma reachable_invariant: "reachable s \<Longrightarrow> invariant s"
  by (induction rule: reachable.induct) (auto intro: invariant_initial step_invariant)

lemma reachable_run: "reachable s \<Longrightarrow> run evs s = Inr s' \<Longrightarrow> reachable s'"
proof (induction evs arbitrary: s)
  case Nil
  then show ?case by simp
next
  case (Cons ev evs)
  then show ?case by (auto split: sum.splits intro: reachable_step)
qed

section \<open>The worked examples, evaluated\<close>

text \<open>The equations that evaluate the model on a concrete state.\<close>

lemmas eval_defs =
  initial_def bootstrap_def spawnWave_def stats_or_normal_def ENEMY_STATS_def
  normal_stats_def fast_stats_def tank_stats_def place_def fire_def coreX_def coreY_def
  closer_def distance_vertical distance_horizontal Let_def frame_def commit_def
  enemiesToDamage_def bulletsToRemove_def updatedBullets_def advance_def out_of_bounds_def
  hits_def enemy_step_def coreRadius_def bulletSpeed_def add_damage_def


lemma frame_tank_state:
  "frame (9 / 10) 3000 top_centre tank_state =
     Inr (tank_state\<lparr>bullets := [], enemies := [tank_enemy\<lparr>e_hp := 40, e_y := 2\<rparr>]\<rparr>)"
  by (simp add: eval_defs tank_catalog_def tank_state_def tank_enemy_def upward_bullet_def)

lemma run_stalled_state:
  "run [Load_waves late_catalog, Bootstrap 1000 top_centre] (initial 800 600) = Inr stalled_state"
  by (simp add: eval_defs late_catalog_def stalled_state_def)

lemma run_cleared_state:
  "run [Load_waves two_wave_catalog, Bootstrap 1000 top_centre] (initial 800 600) = Inr cleared_state"
  by (simp add: eval_defs two_wave_catalog_def cleared_state_def)

lemma frame_cleared_state:
  "frame (1 / 60) 3000 top_centre cleared_state =
     Inr (cleared_state\<lparr>enemies := [tank_enemy\<lparr>e_id := 3000\<rparr>], currentWave := 2\<rparr>)"
  by (simp add: eval_defs two_wave_catalog_def cleared_state_def tank_enemy_def top_centre_def)

lemma frame_last_stand:
  "frame (1 / 60) 3000 top_centre last_stand =
     Inr (last_stand\<lparr>coreHp := 0, enemies := [], gameState := Gameover\<rparr>)"
  by (simp add: eval_defs last_stand_def)

lemma step_terminal:
  assumes "invariant s" and "gameState s \<noteq> Playing"
  shows "step ev s = Inr s"
proof (cases ev)
  case (Load_waves ws)
  have "waves s \<noteq> []" using assms by (cases "gameState s") (auto simp: invariant_def)
  with Load_waves show ?thesis by simp
next
  case (Bootstrap now rnd)
  show ?thesis
  proof (cases "waves s \<noteq> [] \<and> currentWave s = 0")
    case True
    with assms have v: "gameState s = Victory"
      by (cases "gameState s") (auto simp: invariant_def)
    with assms True have "find (\<lambda>w. w_wave w = 1) (waves s) = None"
      by (auto simp: invariant_def)
    then have "spawnWave now rnd 1 s = Inr (s\<lparr>gameState := Victory\<rparr>)"
      by (simp add: spawnWave_def)
    with v True Bootstrap show ?thesis by (simp add: bootstrap_def)
  next
    case False
    with Bootstrap show ?thesis by (auto simp: bootstrap_def)
  qed
next
  case (Frame delta now rnd)
  with assms(2) show ?thesis by (simp add: frame_def)
next
  case (Fire_tick now)
  with assms(2) show ?thesis by (simp add: fire_def)
qed

lemma step_coreHp: "step ev s = Inr s' \<Longrightarrow> coreHp s' \<le> coreHp s"
proof (cases ev)
  case (Load_waves ws)
  assume "step ev s = Inr s'"
  with Load_waves show ?thesis by (auto split: if_splits)
next
  case (Bootstrap now rnd)
  assume "step ev s = Inr s'"
  with Bootstrap have "s' = s \<or> spawnWave now rnd 1 s = Inr s'"
    by (auto simp: bootstrap_def split: if_splits)
  then show ?thesis using spawnWave_Inr(2) by auto
next
  case (Frame delta now rnd)
  assume "step ev s = Inr s'"
  with Frame have fr: "frame delta now rnd s = Inr s'" by simp
  show ?thesis
  proof (cases "gameState s = Playing")
    case True
    from True fr obtain s1 where "commit delta s = Inr s1" "coreHp s' = coreHp s1"
      by (rule frame_bullets_coreHp)
    then show ?thesis using commit_coreHp [of delta s s1] by simp
  next
    case False
    with fr show ?thesis by (simp add: frame_def)
  qed
next
  case (Fire_tick now)
  assume "step ev s = Inr s'"
  with Fire_tick have "fire now s = Inr s'" by simp
  then obtain bs where "s' = s\<lparr>bullets := bs\<rparr>" using fire_Inr by blast
  then show ?thesis by simp
qed

lemma step_currentWave:
  "step ev s = Inr s' \<Longrightarrow> currentWave s' = currentWave s \<or> currentWave s' = currentWave s + 1"
proof (cases ev)
  case (Load_waves ws)
  assume "step ev s = Inr s'"
  with Load_waves show ?thesis by (auto split: if_splits)
next
  case (Bootstrap now rnd)
  assume "step ev s = Inr s'"
  with Bootstrap have "s' = s \<or> (currentWave s = 0 \<and> spawnWave now rnd 1 s = Inr s')"
    by (auto simp: bootstrap_def split: if_splits)
  then show ?thesis using spawnWave_Inr(7) [of now rnd 1 s s'] by auto
next
  case (Frame delta now rnd)
  assume "step ev s = Inr s'"
  with Frame have fr: "frame delta now rnd s = Inr s'" by simp
  show ?thesis
  proof (cases "gameState s = Playing")
    case True
    from True fr obtain s1 where c: "commit delta s = Inr s1"
      and cases: "s' = (if coreHp s1 \<le> 0 then s1\<lparr>gameState := Gameover\<rparr> else s1) \<or>
         (0 < coreHp s1 \<and> enemies s1 = [] \<and> waves s \<noteq> [] \<and>
          spawnWave now rnd (currentWave s + 1) s1 = Inr s')"
      by (rule frame_Playing_Inr)
    from c have same: "currentWave s1 = currentWave s" by (auto elim: commit_Inr)
    from cases show ?thesis
    proof
      assume "s' = (if coreHp s1 \<le> 0 then s1\<lparr>gameState := Gameover\<rparr> else s1)"
      with same show ?thesis by simp
    next
      assume "0 < coreHp s1 \<and> enemies s1 = [] \<and> waves s \<noteq> [] \<and>
          spawnWave now rnd (currentWave s + 1) s1 = Inr s'"
      then show ?thesis
        using spawnWave_Inr(7) [of now rnd "currentWave s + 1" s1 s'] same by auto
    qed
  next
    case False
    with fr show ?thesis by (simp add: frame_def)
  qed
next
  case (Fire_tick now)
  assume "step ev s = Inr s'"
  with Fire_tick have "fire now s = Inr s'" by simp
  then obtain bs where "s' = s\<lparr>bullets := bs\<rparr>" using fire_Inr by blast
  then show ?thesis by simp
qed

lemma sum_list_indicator:
  "(\<Sum>x\<leftarrow>xs. int (if P x then 1 else 0)) = int (length (filter P xs))"
  by (induction xs) auto

lemma damage_total:
  assumes "distinct (map e_id (enemies s))" and "e \<in> set (enemies s)"
  shows "total (enemiesToDamage delta s) (e_id e) = 10 * int (hit_count delta s e)"
proof -
  have "(\<Sum>b\<leftarrow>bullets s. int (length (filter (\<lambda>e'. hits (advance delta b) e' \<and> e_id e' = e_id e) (enemies s)))) =
        (\<Sum>b\<leftarrow>bullets s. int (if hits (advance delta b) e then 1 else 0))"
    using count_distinct_id [OF assms, of "hits (advance delta b)" for b] by simp
  also have "\<dots> = int (hit_count delta s e)"
    by (simp add: sum_list_indicator hit_count_def)
  finally have s: "(\<Sum>b\<leftarrow>bullets s. int (length (filter (\<lambda>e'. hits (advance delta b) e' \<and> e_id e' = e_id e) (enemies s)))) =
        int (hit_count delta s e)" .
  have "total Map.empty (e_id e) = 0" by (simp add: total_def)
  then show ?thesis
    unfolding enemiesToDamage_def total_move_bullets s by simp
qed

lemma hit_marked:
  assumes "b \<in> set (bullets s)" and "e \<in> set (enemies s)" and "hits (advance delta b) e"
  shows "b_id b \<in> set (bulletsToRemove delta s)"
proof -
  have "marked delta s b" using assms(2,3) by (auto simp: marked_def)
  with assms(1) show ?thesis
    by (auto simp: bulletsToRemove_def set_move_bullets)
qed

lemma distinct_bulletsToRemove: "distinct (bulletsToRemove delta s)"
  by (simp add: bulletsToRemove_def distinct_move_bullets)

lemma commit_removes_marked:
  assumes "commit delta s = Inr s1" and "b_id b \<in> set (bulletsToRemove delta s)"
  shows "b_id b \<notin> b_id ` set (bullets s1)"
  using assms by (elim commit_Inr) auto

lemma frame_enemies_same_wave:
  assumes "gameState s = Playing" and "frame delta now rnd s = Inr s'"
    and "commit delta s = Inr s1" and "currentWave s' = currentWave s"
  shows "enemies s' = enemies s1"
proof -
  from assms(1,2) obtain s1' where c: "commit delta s = Inr s1'"
    and cases: "s' = (if coreHp s1' \<le> 0 then s1'\<lparr>gameState := Gameover\<rparr> else s1') \<or>
         (0 < coreHp s1' \<and> enemies s1' = [] \<and> waves s \<noteq> [] \<and>
          spawnWave now rnd (currentWave s + 1) s1' = Inr s')"
    by (rule frame_Playing_Inr)
  from c assms(3) have eq: "s1' = s1" by simp
  from assms(3) have same: "currentWave s1 = currentWave s" by (auto elim: commit_Inr)
  from cases show ?thesis
  proof
    assume "s' = (if coreHp s1' \<le> 0 then s1'\<lparr>gameState := Gameover\<rparr> else s1')"
    with eq show ?thesis by simp
  next
    assume "0 < coreHp s1' \<and> enemies s1' = [] \<and> waves s \<noteq> [] \<and>
          spawnWave now rnd (currentWave s + 1) s1' = Inr s'"
    then have "spawnWave now rnd (currentWave s + 1) s1 = Inr s'" using eq by simp
    then show ?thesis
    proof (cases rule: spawnWave_cases)
      case 1
      then show ?thesis by simp
    next
      case (2 waveData es)
      with assms(4) same show ?thesis by simp
    qed
  qed
qed

lemma spawn_groups_Inl: "spawn_groups w h rnd gs idc k = Inl f \<Longrightarrow> f = Undefined_stats"
proof (induction gs arbitrary: idc k)
  case Nil
  then show ?case by simp
next
  case (Cons g gs)
  then show ?case
    by (auto simp: Let_def split: if_splits option.splits sum.splits)
qed

lemma spawnWave_Inl: "spawnWave now rnd n s = Inl f \<Longrightarrow> f = Undefined_stats"
  by (auto simp: spawnWave_def split: option.splits sum.splits dest: spawn_groups_Inl)

lemma commit_total:
  assumes "invariant s"
  shows "\<exists>s1. commit delta s = Inr s1"
proof (cases "move_enemies delta s (enemiesToDamage delta s) (enemies s) ([], coreHp s)")
  case (Inl f)
  then obtain e where e: "e \<in> set (enemies s)"
    and st: "enemy_step delta s (enemiesToDamage delta s) e = Inl f"
    using move_enemies_Inl by blast
  from assms e have r: "0 < e_radius e" and ty: "stats_or_normal (e_type e) \<noteq> None"
    by (auto simp: invariant_def)
  show ?thesis
  proof (cases f)
    case Division_by_zero
    with st have "e_radius e \<le> - coreRadius" using enemy_step_Division_by_zero by blast
    with r show ?thesis by (simp add: coreRadius_def)
  next
    case Undefined_stats
    with st have "stats_or_normal (e_type e) = None" using enemy_step_Undefined_stats by blast
    with ty show ?thesis by simp
  qed
next
  case (Inr r)
  then show ?thesis by (cases r) (simp add: commit_def)
qed

lemma frame_no_division_by_zero:
  assumes "invariant s"
  shows "frame delta now rnd s \<noteq> Inl Division_by_zero"
proof
  assume a: "frame delta now rnd s = Inl Division_by_zero"
  from commit_total [OF assms] obtain s1 where c: "commit delta s = Inr s1" by blast
  from a c have "spawnWave now rnd (currentWave s + 1) s1 = Inl Division_by_zero"
    by (simp add: frame_def split: if_splits)
  then show False using spawnWave_Inl by blast
qed

lemma run_volley_state:
  "run [Load_waves fast_catalog, Bootstrap 1000 top_centre, Fire_tick 2000, Fire_tick 2400]
     (initial 800 600) = Inr volley_state"
  by (simp add: eval_defs fast_catalog_def top_centre_def volley_state_def fast_enemy_def
        upward_bullet_def)

lemma frame_volley_state:
  "frame (9 / 10) 3000 top_centre volley_state =
     Inr (volley_state\<lparr>bullets := [], enemies := [], gameState := Victory\<rparr>)"
  by (simp add: eval_defs fast_catalog_def volley_state_def fast_enemy_def upward_bullet_def)

lemma run_centre_state:
  "run [Load_waves fast_catalog, Bootstrap 1000 right_centre, Frame (41 / 8) 2000 top_centre]
     (initial 800 600) = Inr centre_state"
  by (simp add: eval_defs fast_catalog_def right_centre_def centre_state_def fast_enemy_def)

lemma commit_centre_state:
  "commit (1 / 60) centre_state = Inr (centre_state\<lparr>coreHp := 90, enemies := []\<rparr>)"
  by (simp add: eval_defs centre_state_def fast_enemy_def distance_self)

lemma stats_or_normal_profile: "stats_or_normal k = Some st \<Longrightarrow> st = profile k"
  by (auto simp: stats_or_normal_def profile_def split: property.splits)

lemma stats_or_normal_not_inherited:
  "k \<notin> set object_prototype_keys \<Longrightarrow> stats_or_normal k = Some (profile k)"
  by (simp add: stats_or_normal_def profile_def ENEMY_STATS_def)

lemma profile_absent: "ENEMY_STATS k = Absent \<Longrightarrow> profile k = normal_stats"
  by (simp add: profile_def)

lemma place_on_edge:
  assumes "0 \<le> w" and "0 \<le> h" and "0 \<le> r2" and "r2 < 1"
  shows "on_edge w h (place w h st ty i r1 r2)"
proof -
  have "0 \<le> r2 * w" "0 \<le> r2 * h" using assms by simp_all
  moreover have "r2 * w \<le> w" using mult_left_le_one_le [of w r2] assms by simp
  moreover have "r2 * h \<le> h" using mult_left_le_one_le [of h r2] assms by simp
  ultimately show ?thesis by (simp add: on_edge_def place_def Let_def)
qed

lemma spawn_loop_on_edge:
  assumes "0 \<le> w" and "0 \<le> h" and "\<forall>i. 0 \<le> rnd i \<and> rnd i < 1"
  shows "e \<in> set (spawn_loop w h rnd st ty n idc k) \<Longrightarrow> on_edge w h e"
  using assms by (induction n arbitrary: idc k) (auto simp: place_on_edge)

lemma spawn_loop_kinds:
  "map (\<lambda>e. (e_type e, e_hp e, e_radius e)) (spawn_loop w h rnd st ty n idc k) =
     replicate n (ty, s_hp st, s_radius st)"
  by (induction n arbitrary: idc k) (auto simp: place_fields)

lemma spawn_groups_kinds:
  "spawn_groups w h rnd gs idc k = Inr es \<Longrightarrow>
   map (\<lambda>e. (e_type e, e_hp e, e_radius e)) es =
     concat (map (\<lambda>g. replicate (nat (d_count g))
                        (d_type g, s_hp (profile (d_type g)), s_radius (profile (d_type g)))) gs)"
proof (induction gs arbitrary: idc k es)
  case Nil
  then show ?case by simp
next
  case (Cons g gs)
  from Cons.prems show ?case
  proof (cases rule: spawn_groups_Cons_Inr)
    case 1
    then show ?thesis using Cons.IH by simp
  next
    case (2 st es1)
    have "st = profile (d_type g)" using 2(2) by (rule stats_or_normal_profile)
    then show ?thesis using Cons.IH [OF 2(3)] 2(4) by (simp add: spawn_loop_kinds)
  qed
qed

lemma spawn_groups_on_edge:
  assumes "0 \<le> w" and "0 \<le> h" and "\<forall>i. 0 \<le> rnd i \<and> rnd i < 1"
  shows "spawn_groups w h rnd gs idc k = Inr es \<Longrightarrow> e \<in> set es \<Longrightarrow> on_edge w h e"
proof (induction gs arbitrary: idc k es)
  case Nil
  then show ?case by simp
next
  case (Cons g gs)
  from Cons.prems(1) show ?case
  proof (cases rule: spawn_groups_Cons_Inr)
    case 1
    then show ?thesis using Cons.IH Cons.prems(2) by blast
  next
    case (2 st es1)
    show ?thesis
    proof (cases "e \<in> set es1")
      case True
      then show ?thesis using Cons.IH 2(3) by blast
    next
      case False
      then have "e \<in> set (spawn_loop w h rnd st (d_type g) (nat (d_count g)) idc k)"
        using 2(4) Cons.prems(2) by simp
      then show ?thesis using spawn_loop_on_edge [OF assms] by blast
    qed
  qed
qed

lemma spawn_groups_total:
  "\<forall>g\<in>set gs. d_type g \<notin> set object_prototype_keys \<Longrightarrow>
   \<exists>es. spawn_groups w h rnd gs idc k = Inr es"
proof (induction gs arbitrary: idc k)
  case Nil
  then show ?case by simp
next
  case (Cons g gs)
  have st: "stats_or_normal (d_type g) = Some (profile (d_type g))"
    using Cons.prems by (simp add: stats_or_normal_not_inherited)
  have ih: "\<exists>es. spawn_groups w h rnd gs i j = Inr es" for i j
    using Cons.IH Cons.prems by simp
  obtain es1 where e1: "spawn_groups w h rnd gs (idc + int (nat (d_count g))) (k + 2 * nat (d_count g)) = Inr es1"
    using ih by blast
  obtain es2 where e2: "spawn_groups w h rnd gs idc k = Inr es2"
    using ih by blast
  show ?case
  proof (cases "nat (d_count g) = 0")
    case True
    then show ?thesis using e2 by (simp add: Let_def)
  next
    case False
    then show ?thesis using e1 st by (simp add: Let_def del: int_nat_eq)
  qed
qed

lemma length_concat_replicate:
  "length (concat (map (\<lambda>g. replicate (f g) (h g)) gs)) = sum_list (map f gs)"
  by (induction gs) auto

text \<open>
  What \<open>spawnWave\<close> does when the wave is in the catalog and none of its groups names an
  inherited property: the enemy set is replaced by as many enemies as the counts add up
  to, group after group, each with the hit points and the radius of its kind's profile,
  each on an edge line outside the viewport, with identifiers that differ; the current
  wave is the requested one.
\<close>

lemma spawnWave_found:
  assumes f: "find (\<lambda>w. w_wave w = n) (waves s) = Some waveData"
    and k: "\<forall>g\<in>set (w_enemies waveData). d_type g \<notin> set object_prototype_keys"
    and wh: "0 \<le> stageWidth s" "0 \<le> stageHeight s" and r: "\<forall>i. 0 \<le> rnd i \<and> rnd i < 1"
  shows "\<exists>es. spawnWave now rnd n s = Inr (s\<lparr>enemies := es, currentWave := n\<rparr>) \<and>
           length es = (\<Sum>g\<leftarrow>w_enemies waveData. nat (d_count g)) \<and>
           map (\<lambda>e. (e_type e, e_hp e, e_radius e)) es =
             concat (map (\<lambda>g. replicate (nat (d_count g))
                (d_type g, s_hp (profile (d_type g)), s_radius (profile (d_type g))))
                (w_enemies waveData)) \<and>
           (\<forall>e\<in>set es. on_edge (stageWidth s) (stageHeight s) e \<and> 0 < e_radius e) \<and>
           distinct (map e_id es)"
proof -
  obtain es where sg:
    "spawn_groups (stageWidth s) (stageHeight s) rnd (w_enemies waveData) now 0 = Inr es"
    using spawn_groups_total [OF k] by blast
  have kinds: "map (\<lambda>e. (e_type e, e_hp e, e_radius e)) es =
             concat (map (\<lambda>g. replicate (nat (d_count g))
                (d_type g, s_hp (profile (d_type g)), s_radius (profile (d_type g))))
                (w_enemies waveData))"
    using spawn_groups_kinds [OF sg] .
  have "length es = length (map (\<lambda>e. (e_type e, e_hp e, e_radius e)) es)" by simp
  also have "\<dots> = (\<Sum>g\<leftarrow>w_enemies waveData. nat (d_count g))"
    unfolding kinds by (rule length_concat_replicate)
  finally have len: "length es = (\<Sum>g\<leftarrow>w_enemies waveData. nat (d_count g))" .
  have edge: "\<forall>e\<in>set es. on_edge (stageWidth s) (stageHeight s) e \<and> 0 < e_radius e"
    using spawn_groups_on_edge [OF wh r sg] spawn_groups_fields [OF sg] by blast
  have "spawnWave now rnd n s = Inr (s\<lparr>enemies := es, currentWave := n\<rparr>)"
    using f sg by (simp add: spawnWave_def)
  then show ?thesis
    using len kinds edge spawn_groups_distinct [OF sg] by blast
qed

lemma on_edge_outside:
  "on_edge w h e \<Longrightarrow> 0 < e_radius e \<Longrightarrow> e_x e < 0 \<or> w < e_x e \<or> e_y e < 0 \<or> h < e_y e"
  by (auto simp: on_edge_def)

lemma nearest_scan_Some:
  "\<exists>r. nearest_scan cx cy es (Some a, Some (distance (e_x a) (e_y a) cx cy)) =
          (Some r, Some (distance (e_x r) (e_y r) cx cy)) \<and>
        ((r = a \<and> (\<forall>e\<in>set es. distance (e_x a) (e_y a) cx cy \<le> distance (e_x e) (e_y e) cx cy)) \<or>
         (\<exists>pre post. es = pre @ r # post \<and>
            distance (e_x r) (e_y r) cx cy < distance (e_x a) (e_y a) cx cy \<and>
            (\<forall>e\<in>set pre. distance (e_x r) (e_y r) cx cy < distance (e_x e) (e_y e) cx cy) \<and>
            (\<forall>e\<in>set post. distance (e_x r) (e_y r) cx cy \<le> distance (e_x e) (e_y e) cx cy)))"
proof (induction es arbitrary: a)
  case Nil
  then show ?case by simp
next
  case (Cons e es)
  let ?d = "\<lambda>e. distance (e_x e) (e_y e) cx cy"
  show ?case
  proof (cases "?d e < ?d a")
    case True
    obtain r where r: "nearest_scan cx cy es (Some e, Some (?d e)) = (Some r, Some (?d r))"
      and alt: "(r = e \<and> (\<forall>x\<in>set es. ?d e \<le> ?d x)) \<or>
         (\<exists>pre post. es = pre @ r # post \<and> ?d r < ?d e \<and>
            (\<forall>x\<in>set pre. ?d r < ?d x) \<and> (\<forall>x\<in>set post. ?d r \<le> ?d x))"
      using Cons.IH [of e] by blast
    have step: "nearest_scan cx cy (e # es) (Some a, Some (?d a)) = (Some r, Some (?d r))"
      using True r by (simp add: closer_def)
    from alt have "\<exists>pre post. e # es = pre @ r # post \<and> ?d r < ?d a \<and>
            (\<forall>x\<in>set pre. ?d r < ?d x) \<and> (\<forall>x\<in>set post. ?d r \<le> ?d x)"
    proof
      assume "r = e \<and> (\<forall>x\<in>set es. ?d e \<le> ?d x)"
      then have "e # es = [] @ r # es \<and> ?d r < ?d a \<and>
            (\<forall>x\<in>set []. ?d r < ?d x) \<and> (\<forall>x\<in>set es. ?d r \<le> ?d x)"
        using True by simp
      then show ?thesis by blast
    next
      assume "\<exists>pre post. es = pre @ r # post \<and> ?d r < ?d e \<and>
            (\<forall>x\<in>set pre. ?d r < ?d x) \<and> (\<forall>x\<in>set post. ?d r \<le> ?d x)"
      then obtain pre post where p: "es = pre @ r # post" "?d r < ?d e"
        "\<forall>x\<in>set pre. ?d r < ?d x" "\<forall>x\<in>set post. ?d r \<le> ?d x" by blast
      then have "e # es = (e # pre) @ r # post \<and> ?d r < ?d a \<and>
            (\<forall>x\<in>set (e # pre). ?d r < ?d x) \<and> (\<forall>x\<in>set post. ?d r \<le> ?d x)"
        using True by simp
      then show ?thesis by blast
    qed
    with step show ?thesis by blast
  next
    case False
    obtain r where r: "nearest_scan cx cy es (Some a, Some (?d a)) = (Some r, Some (?d r))"
      and alt: "(r = a \<and> (\<forall>x\<in>set es. ?d a \<le> ?d x)) \<or>
         (\<exists>pre post. es = pre @ r # post \<and> ?d r < ?d a \<and>
            (\<forall>x\<in>set pre. ?d r < ?d x) \<and> (\<forall>x\<in>set post. ?d r \<le> ?d x))"
      using Cons.IH [of a] by blast
    have step: "nearest_scan cx cy (e # es) (Some a, Some (?d a)) = (Some r, Some (?d r))"
      using False r by (simp add: closer_def)
    from alt have "(r = a \<and> (\<forall>x\<in>set (e # es). ?d a \<le> ?d x)) \<or>
         (\<exists>pre post. e # es = pre @ r # post \<and> ?d r < ?d a \<and>
            (\<forall>x\<in>set pre. ?d r < ?d x) \<and> (\<forall>x\<in>set post. ?d r \<le> ?d x))"
    proof
      assume "r = a \<and> (\<forall>x\<in>set es. ?d a \<le> ?d x)"
      then show ?thesis using False by simp
    next
      assume "\<exists>pre post. es = pre @ r # post \<and> ?d r < ?d a \<and>
            (\<forall>x\<in>set pre. ?d r < ?d x) \<and> (\<forall>x\<in>set post. ?d r \<le> ?d x)"
      then obtain pre post where p: "es = pre @ r # post" "?d r < ?d a"
        "\<forall>x\<in>set pre. ?d r < ?d x" "\<forall>x\<in>set post. ?d r \<le> ?d x" by blast
      then have "e # es = (e # pre) @ r # post \<and> ?d r < ?d a \<and>
            (\<forall>x\<in>set (e # pre). ?d r < ?d x) \<and> (\<forall>x\<in>set post. ?d r \<le> ?d x)"
        using False by simp
      then show ?thesis by blast
    qed
    with step show ?thesis by blast
  qed
qed

text \<open>
  The scan returns the first enemy among those at the least distance: every enemy before
  it is strictly farther, every enemy after it is at least as far.
\<close>

lemma nearest_scan_first_minimum:
  assumes "es \<noteq> []"
  shows "\<exists>pre r post. fst (nearest_scan cx cy es (None, None)) = Some r \<and> es = pre @ r # post \<and>
           (\<forall>e\<in>set pre. distance (e_x r) (e_y r) cx cy < distance (e_x e) (e_y e) cx cy) \<and>
           (\<forall>e\<in>set post. distance (e_x r) (e_y r) cx cy \<le> distance (e_x e) (e_y e) cx cy)"
proof -
  let ?d = "\<lambda>e. distance (e_x e) (e_y e) cx cy"
  from assms obtain a es' where es: "es = a # es'" by (cases es) auto
  obtain r where r: "nearest_scan cx cy es' (Some a, Some (?d a)) = (Some r, Some (?d r))"
    and alt: "(r = a \<and> (\<forall>x\<in>set es'. ?d a \<le> ?d x)) \<or>
         (\<exists>pre post. es' = pre @ r # post \<and> ?d r < ?d a \<and>
            (\<forall>x\<in>set pre. ?d r < ?d x) \<and> (\<forall>x\<in>set post. ?d r \<le> ?d x))"
    using nearest_scan_Some [of cx cy es' a] by blast
  have res: "fst (nearest_scan cx cy es (None, None)) = Some r"
    using r es by (simp add: closer_def)
  from alt have "\<exists>pre post. es = pre @ r # post \<and>
           (\<forall>e\<in>set pre. ?d r < ?d e) \<and> (\<forall>e\<in>set post. ?d r \<le> ?d e)"
  proof
    assume "r = a \<and> (\<forall>x\<in>set es'. ?d a \<le> ?d x)"
    then have "es = [] @ r # es' \<and> (\<forall>e\<in>set []. ?d r < ?d e) \<and> (\<forall>e\<in>set es'. ?d r \<le> ?d e)"
      using es by simp
    then show ?thesis by blast
  next
    assume "\<exists>pre post. es' = pre @ r # post \<and> ?d r < ?d a \<and>
            (\<forall>x\<in>set pre. ?d r < ?d x) \<and> (\<forall>x\<in>set post. ?d r \<le> ?d x)"
    then obtain pre post where p: "es' = pre @ r # post" "?d r < ?d a"
        "\<forall>x\<in>set pre. ?d r < ?d x" "\<forall>x\<in>set post. ?d r \<le> ?d x" by blast
    then have "es = (a # pre) @ r # post \<and> (\<forall>e\<in>set (a # pre). ?d r < ?d e) \<and>
        (\<forall>e\<in>set post. ?d r \<le> ?d e)"
      using es by simp
    then show ?thesis by blast
  qed
  with res show ?thesis by blast
qed

lemma unit_direction:
  assumes "distance x y cx cy \<noteq> 0"
  shows "((x - cx) / distance x y cx cy)\<^sup>2 + ((y - cy) / distance x y cx cy)\<^sup>2 = 1"
proof -
  have sq: "(distance x y cx cy)\<^sup>2 = (x - cx)\<^sup>2 + (y - cy)\<^sup>2"
    by (simp add: distance_def)
  have "((x - cx) / distance x y cx cy)\<^sup>2 + ((y - cy) / distance x y cx cy)\<^sup>2 =
        ((x - cx)\<^sup>2 + (y - cy)\<^sup>2) / (distance x y cx cy)\<^sup>2"
    by (simp add: power_divide add_divide_distrib)
  also have "\<dots> = (distance x y cx cy)\<^sup>2 / (distance x y cx cy)\<^sup>2"
    by (simp only: sq)
  also have "\<dots> = 1" using assms by simp
  finally show ?thesis .
qed

text \<open>
  What a tick of the fire interval does while the game is playing and there are enemies:
  it leaves the enemies alone; with \<open>r\<close> the first enemy at the least distance from the
  core, it appends one bullet at the core's position whose direction is the unit vector
  towards \<open>r\<close>, unless \<open>r\<close> is exactly at the core's position, where it divides zero by
  zero.
\<close>

lemma fire_first_nearest:
  assumes "gameState s = Playing" and "enemies s \<noteq> []"
  shows "\<exists>pre r post. enemies s = pre @ r # post \<and>
           (\<forall>e\<in>set pre. distToCore s r < distToCore s e) \<and>
           (\<forall>e\<in>set post. distToCore s r \<le> distToCore s e) \<and>
           (if distToCore s r = 0 then fire now s = Inl Division_by_zero
            else \<exists>b. fire now s = Inr (s\<lparr>bullets := bullets s @ [b]\<rparr>) \<and>
                   b_x b = coreX s \<and> b_y b = coreY s \<and> b_radius b = 5 \<and> b_id b = now \<and>
                   b_dx b = (e_x r - coreX s) / distToCore s r \<and>
                   b_dy b = (e_y r - coreY s) / distToCore s r \<and>
                   (b_dx b)\<^sup>2 + (b_dy b)\<^sup>2 = 1)"
proof -
  obtain pre r post where n: "fst (nearest_scan (coreX s) (coreY s) (enemies s) (None, None)) = Some r"
    and sp: "enemies s = pre @ r # post"
    and a: "\<forall>e\<in>set pre. distToCore s r < distToCore s e"
    and b: "\<forall>e\<in>set post. distToCore s r \<le> distToCore s e"
    using nearest_scan_first_minimum [OF assms(2), of "coreX s" "coreY s"]
    unfolding distToCore_def by blast
  have "if distToCore s r = 0 then fire now s = Inl Division_by_zero
            else \<exists>b. fire now s = Inr (s\<lparr>bullets := bullets s @ [b]\<rparr>) \<and>
                   b_x b = coreX s \<and> b_y b = coreY s \<and> b_radius b = 5 \<and> b_id b = now \<and>
                   b_dx b = (e_x r - coreX s) / distToCore s r \<and>
                   b_dy b = (e_y r - coreY s) / distToCore s r \<and>
                   (b_dx b)\<^sup>2 + (b_dy b)\<^sup>2 = 1"
  proof (cases "distToCore s r = 0")
    case True
    then show ?thesis using assms n by (simp add: fire_def distToCore_def)
  next
    case False
    then have u: "((e_x r - coreX s) / distToCore s r)\<^sup>2 + ((e_y r - coreY s) / distToCore s r)\<^sup>2 = 1"
      unfolding distToCore_def by (rule unit_direction)
    have "fire now s = Inr (s\<lparr>bullets := bullets s @
            [\<lparr>b_id = now, b_x = coreX s, b_y = coreY s,
              b_dx = (e_x r - coreX s) / distToCore s r,
              b_dy = (e_y r - coreY s) / distToCore s r, b_radius = 5\<rparr>]\<rparr>)"
      using assms n False by (simp add: fire_def distToCore_def Let_def)
    with u False show ?thesis by auto
  qed
  with sp a b show ?thesis by blast
qed

lemma fire_no_enemies: "enemies s = [] \<Longrightarrow> fire now s = Inr s"
  by (simp add: fire_def)

lemma fire_enemies: "fire now s = Inr s' \<Longrightarrow> enemies s' = enemies s"
  using fire_Inr [of now s s'] by auto

section \<open>Properties of the simulation loop\<close>

text \<open>
  Claim C8. In a frame that is processed (the game is playing), a bullet whose advanced
  position lies outside the viewport is not in the bullet set the frame leaves, and no
  bullet of that set carries its identifier.
\<close>

theorem out_of_bounds_bullet_removed:
  assumes "gameState s = Playing" and "frame delta now rnd s = Inr s'"
    and "b \<in> set (bullets s)" and "out_of_bounds s (advance delta b)"
  shows "advance delta b \<notin> set (bullets s') \<and> (\<forall>b'\<in>set (bullets s'). b_id b' \<noteq> b_id b)"
proof -
  from assms(1,2) obtain s1 where c: "commit delta s = Inr s1" and b: "bullets s' = bullets s1"
    by (rule frame_bullets_coreHp)
  have "marked delta s b" using assms(4) by (simp add: marked_def)
  then have "b_id b \<in> b_id ` {b \<in> set (bullets s). marked delta s b}" using assms(3) by blast
  then have ids: "\<forall>b'\<in>set (bullets s'). b_id b' \<noteq> b_id b"
    unfolding b commit_bullets [OF c] by auto
  have "advance delta b \<notin> set (bullets s')"
  proof
    assume "advance delta b \<in> set (bullets s')"
    with ids have "b_id (advance delta b) \<noteq> b_id b" by blast
    then show False by (simp add: b_id_advance)
  qed
  with ids show ?thesis by blast
qed

theorem out_of_bounds_bullet_removed_witness:
  "gameState tank_state = Playing \<and>
   frame (9 / 10) 3000 top_centre tank_state =
     Inr (tank_state\<lparr>bullets := [], enemies := [tank_enemy\<lparr>e_hp := 40, e_y := 2\<rparr>]\<rparr>) \<and>
   upward_bullet 2000 \<in> set (bullets tank_state) \<and>
   out_of_bounds tank_state (advance (9 / 10) (upward_bullet 2000)) \<and>
   advance (9 / 10) (upward_bullet 2000) \<notin>
     set (bullets (tank_state\<lparr>bullets := [], enemies := [tank_enemy\<lparr>e_hp := 40, e_y := 2\<rparr>]\<rparr>))"
proof -
  have p: "gameState tank_state = Playing" by (simp add: tank_state_def)
  have b: "upward_bullet 2000 \<in> set (bullets tank_state)" by (simp add: tank_state_def)
  have o: "out_of_bounds tank_state (advance (9 / 10) (upward_bullet 2000))"
    by (simp add: out_of_bounds_def advance_def upward_bullet_def bulletSpeed_def tank_state_def)
  show ?thesis
    using out_of_bounds_bullet_removed [OF p frame_tank_state b o] p frame_tank_state b o
    by blast
qed

section \<open>The game state\<close>

text \<open>
  Claim C3. In a state the component can reach, an event changes the game state only when
  the game is playing, so game-over and victory are never left; and in a reachable state
  in which the game is not playing, every event (a frame and a tick of the fire interval
  among them) returns the state as it was, enemies and bullets included.
\<close>

theorem terminal_states_freeze:
  assumes "reachable s"
  shows "(gameState s \<noteq> Playing \<longrightarrow>
            step ev s = Inr s \<and> frame delta now rnd s = Inr s \<and> fire now s = Inr s) \<and>
         (\<forall>s'. step ev s = Inr s' \<and> gameState s' \<noteq> gameState s \<longrightarrow>
            gameState s = Playing \<and> (gameState s' = Gameover \<or> gameState s' = Victory))"
proof -
  have inv: "invariant s" using assms by (rule reachable_invariant)
  have a: "gameState s \<noteq> Playing \<longrightarrow>
            step ev s = Inr s \<and> frame delta now rnd s = Inr s \<and> fire now s = Inr s"
    using step_terminal [OF inv] by (simp add: frame_def fire_def)
  have b: "gameState s = Playing \<and> (gameState s' = Gameover \<or> gameState s' = Victory)"
    if "step ev s = Inr s' \<and> gameState s' \<noteq> gameState s" for s'
  proof -
    have p: "gameState s = Playing"
    proof (rule ccontr)
      assume "gameState s \<noteq> Playing"
      then have "step ev s = Inr s" using step_terminal [OF inv] by blast
      with that have "s' = s" by simp
      with that show False by simp
    qed
    with that show ?thesis by (cases "gameState s'") auto
  qed
  from a b show ?thesis by blast
qed

theorem terminal_states_freeze_witness:
  "reachable stalled_state \<and> gameState stalled_state \<noteq> Playing \<and>
   step (Frame (1 / 60) 3000 top_centre) stalled_state = Inr stalled_state \<and>
   frame (1 / 60) 3000 top_centre stalled_state = Inr stalled_state \<and>
   fire 3000 stalled_state = Inr stalled_state \<and>
   reachable ((initial 800 600)\<lparr>waves := late_catalog\<rparr>) \<and>
   step (Bootstrap 1000 top_centre) ((initial 800 600)\<lparr>waves := late_catalog\<rparr>) = Inr stalled_state \<and>
   gameState ((initial 800 600)\<lparr>waves := late_catalog\<rparr>) = Playing \<and>
   gameState stalled_state = Victory"
proof -
  have l: "step (Load_waves late_catalog) (initial 800 600) = Inr ((initial 800 600)\<lparr>waves := late_catalog\<rparr>)"
    by (simp add: initial_def)
  have r0: "reachable ((initial 800 600)\<lparr>waves := late_catalog\<rparr>)"
    using reachable_step [OF reachable_initial l] .
  have b: "step (Bootstrap 1000 top_centre) ((initial 800 600)\<lparr>waves := late_catalog\<rparr>) = Inr stalled_state"
    by (simp add: eval_defs late_catalog_def stalled_state_def)
  have r: "reachable stalled_state" using reachable_step [OF r0 b] .
  have g: "gameState stalled_state = Victory" "gameState ((initial 800 600)\<lparr>waves := late_catalog\<rparr>) = Playing"
    by (simp_all add: stalled_state_def initial_def)
  show ?thesis
    using terminal_states_freeze [OF r, where ev = "Frame (1 / 60) 3000 top_centre"
        and delta = "1 / 60" and now = 3000 and rnd = top_centre]
      terminal_states_freeze [OF r0, where ev = "Bootstrap 1000 top_centre"] r r0 b g
    by simp
qed

text \<open>
  Claim C4. When the catalog has no wave numbered \<open>n\<close>, \<open>spawnWave n\<close> returns the state
  with the game state set to victory and nothing else changed: no enemy is spawned, the
  enemy set and the current wave number are as before. When moreover the call is one the
  component makes (the catalog is loaded and \<open>n\<close> is the current wave number plus one),
  every later sequence of events leaves that state as it is, so no wave is spawned again.
\<close>

theorem spawnWave_missing_wave:
  assumes "find (\<lambda>w. w_wave w = n) (waves s) = None"
  shows "\<exists>s'. spawnWave now rnd n s = Inr s' \<and> s' = s\<lparr>gameState := Victory\<rparr> \<and>
           gameState s' = Victory \<and> enemies s' = enemies s \<and> currentWave s' = currentWave s \<and>
           (waves s \<noteq> [] \<and> n = currentWave s + 1 \<longrightarrow> (\<forall>evs. run evs s' = Inr s'))"
proof -
  define v where "v = s\<lparr>gameState := Victory\<rparr>"
  have sp: "spawnWave now rnd n s = Inr v" using assms by (simp add: spawnWave_def v_def)
  have frozen: "run evs v = Inr v" if w: "waves s \<noteq> []" and n: "n = currentWave s + 1" for evs
  proof (induction evs)
    case Nil
    show ?case by simp
  next
    case (Cons ev evs)
    have "step ev v = Inr v"
    proof (cases ev)
      case (Load_waves ws)
      with w show ?thesis by (simp add: v_def)
    next
      case (Bootstrap now' rnd')
      show ?thesis
      proof (cases "currentWave s = 0")
        case True
        with n assms have "find (\<lambda>w. w_wave w = 1) (waves v) = None" by (simp add: v_def)
        then have "spawnWave now' rnd' 1 v = Inr (v\<lparr>gameState := Victory\<rparr>)"
          by (simp add: spawnWave_def)
        then show ?thesis using Bootstrap by (simp add: bootstrap_def v_def)
      next
        case False
        with Bootstrap show ?thesis by (simp add: bootstrap_def v_def)
      qed
    next
      case (Frame delta now' rnd')
      then show ?thesis by (simp add: frame_def v_def)
    next
      case (Fire_tick now')
      then show ?thesis by (simp add: fire_def v_def)
    qed
    with Cons.IH show ?case by simp
  qed
  show ?thesis using sp frozen by (auto simp: v_def)
qed

theorem spawnWave_missing_wave_witness:
  "find (\<lambda>w. w_wave w = 2) (waves tank_state) = None \<and>
   spawnWave 3000 top_centre 2 tank_state = Inr (tank_state\<lparr>gameState := Victory\<rparr>) \<and>
   waves tank_state \<noteq> [] \<and> 2 = currentWave tank_state + 1 \<and>
   run [Frame (9 / 10) 4000 top_centre, Fire_tick 4400, Bootstrap 4500 top_centre]
     (tank_state\<lparr>gameState := Victory\<rparr>) = Inr (tank_state\<lparr>gameState := Victory\<rparr>)"
proof -
  have f: "find (\<lambda>w. w_wave w = 2) (waves tank_state) = None"
    by (simp add: tank_state_def tank_catalog_def)
  have w: "waves tank_state \<noteq> []" "2 = currentWave tank_state + 1"
    by (simp_all add: tank_state_def tank_catalog_def)
  show ?thesis
    using spawnWave_missing_wave [OF f, of 3000 top_centre] f w by auto
qed

text \<open>
  Claim C5. No event increases the core's hit points. A processed frame lowers them by ten
  for each enemy that is still alive after this frame's damage and is within reach of the
  core. When a processed frame leaves them at zero or below, the state it leaves is the
  committed state with the game state set to game-over: the wave number is unchanged and
  the enemy set is the post-removal set, also when that set is empty.
\<close>

theorem core_hp_never_increases:
  assumes "step ev s = Inr s'"
  shows "coreHp s' \<le> coreHp s \<and>
         (\<forall>delta now rnd. ev = Frame delta now rnd \<and> gameState s = Playing \<longrightarrow>
            coreHp s' = coreHp s - 10 * int (length (filter
              (\<lambda>e. 0 < hp_after (enemiesToDamage delta s) e \<and> reaches_core s e) (enemies s))) \<and>
            (coreHp s' \<le> 0 \<longrightarrow>
               gameState s' = Gameover \<and> currentWave s' = currentWave s \<and>
               (\<exists>s1. commit delta s = Inr s1 \<and> s' = s1\<lparr>gameState := Gameover\<rparr>)))"
proof -
  have "coreHp s' = coreHp s - 10 * int (length (filter
              (\<lambda>e. 0 < hp_after (enemiesToDamage delta s) e \<and> reaches_core s e) (enemies s))) \<and>
            (coreHp s' \<le> 0 \<longrightarrow>
               gameState s' = Gameover \<and> currentWave s' = currentWave s \<and>
               (\<exists>s1. commit delta s = Inr s1 \<and> s' = s1\<lparr>gameState := Gameover\<rparr>))"
    if ev: "ev = Frame delta now rnd" and pl: "gameState s = Playing" for delta now rnd
  proof -
    from assms ev have fr: "frame delta now rnd s = Inr s'" by simp
    from pl fr obtain s1 where c: "commit delta s = Inr s1"
      and cases: "s' = (if coreHp s1 \<le> 0 then s1\<lparr>gameState := Gameover\<rparr> else s1) \<or>
         (0 < coreHp s1 \<and> enemies s1 = [] \<and> waves s \<noteq> [] \<and>
          spawnWave now rnd (currentWave s + 1) s1 = Inr s')"
      by (rule frame_Playing_Inr)
    from c have same: "currentWave s1 = currentWave s" by (auto elim: commit_Inr)
    have hp: "coreHp s' = coreHp s1"
      using cases spawnWave_Inr(2) [of now rnd "currentWave s + 1" s1 s'] by auto
    have go: "coreHp s' \<le> 0 \<longrightarrow> s' = s1\<lparr>gameState := Gameover\<rparr>"
      using cases hp by auto
    show ?thesis
      using hp commit_coreHp [OF c] go same c by auto
  qed
  with step_coreHp [OF assms] show ?thesis by blast
qed

theorem core_hp_never_increases_witness:
  "step (Frame (1 / 60) 3000 top_centre) last_stand =
     Inr (last_stand\<lparr>coreHp := 0, enemies := [], gameState := Gameover\<rparr>) \<and>
   gameState last_stand = Playing \<and>
   coreHp (last_stand\<lparr>coreHp := 0, enemies := [], gameState := Gameover\<rparr>) \<le> coreHp last_stand \<and>
   gameState (last_stand\<lparr>coreHp := 0, enemies := [], gameState := Gameover\<rparr>) = Gameover \<and>
   currentWave (last_stand\<lparr>coreHp := 0, enemies := [], gameState := Gameover\<rparr>) = currentWave last_stand \<and>
   find (\<lambda>w. w_wave w = currentWave last_stand + 1) (waves last_stand) \<noteq> None"
proof -
  have st: "step (Frame (1 / 60) 3000 top_centre) last_stand =
     Inr (last_stand\<lparr>coreHp := 0, enemies := [], gameState := Gameover\<rparr>)"
    using frame_last_stand by simp
  have pl: "gameState last_stand = Playing" by (simp add: last_stand_def)
  have nx: "find (\<lambda>w. w_wave w = currentWave last_stand + 1) (waves last_stand) \<noteq> None"
    by (simp add: last_stand_def two_wave_catalog_def)
  show ?thesis
    using core_hp_never_increases [OF st] st pl nx by simp
qed

text \<open>
  Claim C9. An event leaves the current wave number as it is or raises it by exactly one.
  In a processed frame whose post-removal enemy set is empty, with the catalog loaded and
  the core alive, the frame's result is that of \<open>spawnWave\<close> called with the current wave
  number plus one; when the catalog has that wave, it becomes the current wave.
\<close>

theorem wave_number_advances_by_one:
  assumes "step ev s = Inr s'"
  shows "(currentWave s' = currentWave s \<or> currentWave s' = currentWave s + 1) \<and>
         (\<forall>delta now rnd s1.
            ev = Frame delta now rnd \<and> gameState s = Playing \<and> commit delta s = Inr s1 \<and>
            enemies s1 = [] \<and> waves s \<noteq> [] \<and> 0 < coreHp s1 \<longrightarrow>
              spawnWave now rnd (currentWave s + 1) s1 = Inr s' \<and>
              (find (\<lambda>w. w_wave w = currentWave s + 1) (waves s) \<noteq> None \<longrightarrow>
                 currentWave s' = currentWave s + 1))"
proof -
  have "spawnWave now rnd (currentWave s + 1) s1 = Inr s' \<and>
              (find (\<lambda>w. w_wave w = currentWave s + 1) (waves s) \<noteq> None \<longrightarrow>
                 currentWave s' = currentWave s + 1)"
    if ev: "ev = Frame delta now rnd" and pl: "gameState s = Playing"
      and c: "commit delta s = Inr s1" and e: "enemies s1 = []" and w: "waves s \<noteq> []"
      and hp: "0 < coreHp s1" for delta now rnd s1
  proof -
    from assms ev have fr: "frame delta now rnd s = Inr s'" by simp
    have sp: "spawnWave now rnd (currentWave s + 1) s1 = Inr s'"
      using fr pl c e w hp by (simp add: frame_def)
    from c have same: "waves s1 = waves s" by (auto elim: commit_Inr)
    have "currentWave s' = currentWave s + 1"
      if "find (\<lambda>w. w_wave w = currentWave s + 1) (waves s) \<noteq> None"
      using sp
    proof (cases rule: spawnWave_cases)
      case 1
      with that same show ?thesis by simp
    next
      case (2 waveData es)
      then show ?thesis by simp
    qed
    with sp show ?thesis by blast
  qed
  with step_currentWave [OF assms] show ?thesis by blast
qed

theorem wave_number_advances_by_one_witness:
  "step (Frame (1 / 60) 3000 top_centre) cleared_state =
     Inr (cleared_state\<lparr>enemies := [tank_enemy\<lparr>e_id := 3000\<rparr>], currentWave := 2\<rparr>) \<and>
   gameState cleared_state = Playing \<and> commit (1 / 60) cleared_state = Inr cleared_state \<and>
   enemies cleared_state = [] \<and> waves cleared_state \<noteq> [] \<and> 0 < coreHp cleared_state \<and>
   spawnWave 3000 top_centre (currentWave cleared_state + 1) cleared_state =
     Inr (cleared_state\<lparr>enemies := [tank_enemy\<lparr>e_id := 3000\<rparr>], currentWave := 2\<rparr>) \<and>
   currentWave (cleared_state\<lparr>enemies := [tank_enemy\<lparr>e_id := 3000\<rparr>], currentWave := 2\<rparr>) =
     currentWave cleared_state + 1"
proof -
  have st: "step (Frame (1 / 60) 3000 top_centre) cleared_state =
     Inr (cleared_state\<lparr>enemies := [tank_enemy\<lparr>e_id := 3000\<rparr>], currentWave := 2\<rparr>)"
    using frame_cleared_state by simp
  have c: "commit (1 / 60) cleared_state = Inr cleared_state"
    by (simp add: eval_defs cleared_state_def)
  have g: "gameState cleared_state = Playing" "enemies cleared_state = []"
    "waves cleared_state \<noteq> []" "0 < coreHp cleared_state"
    by (simp_all add: cleared_state_def initial_def two_wave_catalog_def)
  have nx: "find (\<lambda>w. w_wave w = currentWave cleared_state + 1) (waves cleared_state) \<noteq> None"
    by (simp add: cleared_state_def initial_def two_wave_catalog_def)
  have "spawnWave 3000 top_centre (currentWave cleared_state + 1) cleared_state =
          Inr (cleared_state\<lparr>enemies := [tank_enemy\<lparr>e_id := 3000\<rparr>], currentWave := 2\<rparr>) \<and>
        currentWave (cleared_state\<lparr>enemies := [tank_enemy\<lparr>e_id := 3000\<rparr>], currentWave := 2\<rparr>) =
          currentWave cleared_state + 1"
    using wave_number_advances_by_one [OF st] c g nx by blast
  with st c g show ?thesis by blast
qed

section \<open>Damage and collisions\<close>

text \<open>
  Claim C1. In a processed frame of a reachable state, for an enemy \<open>e\<close> whose reach holds
  the advanced positions of \<open>k\<close> bullets: its hit points after the damage are its hit
  points minus \<open>10 * k\<close>; each bullet identifier stands at most once in the removal set,
  and every bullet within reach of \<open>e\<close> is in it and gone after the frame; when no new
  wave replaced the enemy set, an enemy that still carries the identifier of \<open>e\<close> has
  exactly these hit points; and when they are zero or below, \<open>e\<close> is gone after the frame
  and the core loses ten hit points for each of the other enemies that survives and is
  within its reach, and nothing for \<open>e\<close>.
\<close>

theorem damage_accumulates:
  assumes "reachable s" and "gameState s = Playing" and "e \<in> set (enemies s)"
    and "frame delta now rnd s = Inr s'"
  shows "hp_after (enemiesToDamage delta s) e = e_hp e - 10 * int (hit_count delta s e) \<and>
         distinct (bulletsToRemove delta s) \<and>
         (\<forall>b\<in>set (bullets s). hits (advance delta b) e \<longrightarrow>
            b_id b \<in> set (bulletsToRemove delta s) \<and> b_id b \<notin> b_id ` set (bullets s')) \<and>
         (currentWave s' = currentWave s \<longrightarrow>
            (\<forall>e'\<in>set (enemies s'). e_id e' = e_id e \<longrightarrow>
               e_hp e' = e_hp e - 10 * int (hit_count delta s e))) \<and>
         (e_hp e - 10 * int (hit_count delta s e) \<le> 0 \<longrightarrow>
            (currentWave s' = currentWave s \<longrightarrow> e_id e \<notin> e_id ` set (enemies s')) \<and>
            coreHp s' = coreHp s - 10 * int (length (filter
              (\<lambda>e'. 0 < hp_after (enemiesToDamage delta s) e' \<and> reaches_core s e')
              (removeAll e (enemies s)))))"
proof -
  have inv: "invariant s" using assms(1) by (rule reachable_invariant)
  then have d: "distinct (map e_id (enemies s))" by (simp add: invariant_def)
  have hp: "hp_after (enemiesToDamage delta s) e = e_hp e - 10 * int (hit_count delta s e)"
    using damage_total [OF d assms(3)] by (simp add: hp_after_def)
  from assms(2,4) obtain s1 where c: "commit delta s = Inr s1" and b: "bullets s' = bullets s1"
    and chp: "coreHp s' = coreHp s1"
    by (rule frame_bullets_coreHp)
  have bul: "\<forall>b\<in>set (bullets s). hits (advance delta b) e \<longrightarrow>
            b_id b \<in> set (bulletsToRemove delta s) \<and> b_id b \<notin> b_id ` set (bullets s')"
    using hit_marked [OF _ assms(3)] commit_removes_marked [OF c] b by auto
  have surv: "e_hp e' = e_hp e - 10 * int (hit_count delta s e)"
    if w: "currentWave s' = currentWave s" and e': "e' \<in> set (enemies s')" and i: "e_id e' = e_id e"
    for e'
  proof -
    have "enemies s' = enemies s1" using frame_enemies_same_wave [OF assms(2,4) c w] .
    with e' obtain e0 where e0: "e0 \<in> set (enemies s)"
      and st: "enemy_step delta s (enemiesToDamage delta s) e0 = Inr (e', Moved)"
      using commit_survivor [OF c] by auto
    have "e_id e0 = e_id e" using enemy_step_Inr(1) [OF st] i by simp
    then have "e0 = e" using d e0 assms(3) by (auto simp: distinct_map inj_on_def)
    then show ?thesis using enemy_step_Inr(4) [OF st] hp by simp
  qed
  have dead: "(currentWave s' = currentWave s \<longrightarrow> e_id e \<notin> e_id ` set (enemies s')) \<and>
            coreHp s' = coreHp s - 10 * int (length (filter
              (\<lambda>e'. 0 < hp_after (enemiesToDamage delta s) e' \<and> reaches_core s e')
              (removeAll e (enemies s))))"
    if le: "e_hp e - 10 * int (hit_count delta s e) \<le> 0"
  proof -
    have h: "hp_after (enemiesToDamage delta s) e \<le> 0" using le hp by simp
    have "e_id e \<notin> e_id ` set (enemies s1)"
      using commit_removed [OF c assms(3)] h by blast
    then have a: "currentWave s' = currentWave s \<longrightarrow> e_id e \<notin> e_id ` set (enemies s')"
      using frame_enemies_same_wave [OF assms(2,4) c] by auto
    have "filter (\<lambda>e'. 0 < hp_after (enemiesToDamage delta s) e' \<and> reaches_core s e')
            (removeAll e (enemies s)) =
          filter (\<lambda>e'. 0 < hp_after (enemiesToDamage delta s) e' \<and> reaches_core s e') (enemies s)"
      using h by (auto simp: removeAll_filter_not_eq intro: filter_cong)
    then show ?thesis using a chp commit_coreHp [OF c] by simp
  qed
  show ?thesis
    using hp distinct_bulletsToRemove bul surv dead by blast
qed

theorem damage_accumulates_witness:
  "reachable volley_state \<and> gameState volley_state = Playing \<and>
   fast_enemy \<in> set (enemies volley_state) \<and>
   frame (9 / 10) 3000 top_centre volley_state =
     Inr (volley_state\<lparr>bullets := [], enemies := [], gameState := Victory\<rparr>) \<and>
   hit_count (9 / 10) volley_state fast_enemy = 2 \<and>
   hp_after (enemiesToDamage (9 / 10) volley_state) fast_enemy = e_hp fast_enemy - 20 \<and>
   e_hp fast_enemy - 20 \<le> 0 \<and>
   distinct (bulletsToRemove (9 / 10) volley_state) \<and>
   coreHp (volley_state\<lparr>bullets := [], enemies := [], gameState := Victory\<rparr>) =
     coreHp volley_state"
proof -
  have r: "reachable volley_state"
    using reachable_run [OF reachable_initial run_volley_state] .
  have p: "gameState volley_state = Playing" by (simp add: volley_state_def)
  have e: "fast_enemy \<in> set (enemies volley_state)" by (simp add: volley_state_def)
  have k: "hit_count (9 / 10) volley_state fast_enemy = 2"
    by (simp add: hit_count_def volley_state_def fast_enemy_def upward_bullet_def hits_def
          advance_def bulletSpeed_def distance_vertical)
  have h: "e_hp fast_enemy - 20 \<le> 0" by (simp add: fast_enemy_def)
  have rm: "removeAll fast_enemy (enemies volley_state) = []" by (simp add: volley_state_def)
  show ?thesis
    using damage_accumulates [OF r p e frame_volley_state] r p e frame_volley_state k h rm
    by simp
qed

text \<open>
  Claim C2. In a reachable state both loops of a frame return a state, a frame never
  produces a division by zero, and an enemy exactly at the core's centre leaves the loop
  body through one of its two early returns, never through the movement code: when it
  is alive after this frame's damage it leaves through the core collision check, is
  marked for removal and costs the core ten hit points.
\<close>

theorem movement_never_divides_by_zero:
  assumes "reachable s"
  shows "(\<exists>s1. commit delta s = Inr s1) \<and> frame delta now rnd s \<noteq> Inl Division_by_zero \<and>
         (\<forall>e\<in>set (enemies s). e_x e = coreX s \<and> e_y e = coreY s \<longrightarrow>
            (\<exists>e' ft. enemy_step delta s (enemiesToDamage delta s) e = Inr (e', ft) \<and> ft \<noteq> Moved \<and>
               (0 < hp_after (enemiesToDamage delta s) e \<longrightarrow>
                  ft = Reached_core \<and>
                  (\<forall>s1. commit delta s = Inr s1 \<longrightarrow>
                     e_id e \<notin> e_id ` set (enemies s1) \<and> coreHp s1 \<le> coreHp s - 10))))"
proof -
  have inv: "invariant s" using assms by (rule reachable_invariant)
  have centre: "\<exists>e' ft. enemy_step delta s (enemiesToDamage delta s) e = Inr (e', ft) \<and> ft \<noteq> Moved \<and>
               (0 < hp_after (enemiesToDamage delta s) e \<longrightarrow>
                  ft = Reached_core \<and>
                  (\<forall>s1. commit delta s = Inr s1 \<longrightarrow>
                     e_id e \<notin> e_id ` set (enemies s1) \<and> coreHp s1 \<le> coreHp s - 10))"
    if e: "e \<in> set (enemies s)" and at: "e_x e = coreX s \<and> e_y e = coreY s" for e
  proof -
    have "0 < e_radius e" using inv e by (auto simp: invariant_def)
    then have rc: "reaches_core s e"
      using at by (simp add: reaches_core_def distance_self coreRadius_def)
    show ?thesis
    proof (cases "hp_after (enemiesToDamage delta s) e \<le> 0")
      case True
      then show ?thesis using enemy_step_Dead [of "enemiesToDamage delta s" e delta s] by auto
    next
      case False
      then have pos: "0 < hp_after (enemiesToDamage delta s) e" by simp
      have st: "enemy_step delta s (enemiesToDamage delta s) e =
              Inr (e\<lparr>e_hp := hp_after (enemiesToDamage delta s) e\<rparr>, Reached_core)"
        using enemy_step_Reached_core [OF pos rc] .
      have "e_id e \<notin> e_id ` set (enemies s1) \<and> coreHp s1 \<le> coreHp s - 10"
        if c: "commit delta s = Inr s1" for s1
      proof -
        have "e \<in> set (filter (\<lambda>e. 0 < hp_after (enemiesToDamage delta s) e \<and> reaches_core s e)
                 (enemies s))"
          using e pos rc by simp
        then have "0 < length (filter (\<lambda>e. 0 < hp_after (enemiesToDamage delta s) e \<and> reaches_core s e)
                 (enemies s))"
          by (rule length_pos_if_in_set)
        then have "1 \<le> int (length (filter (\<lambda>e. 0 < hp_after (enemiesToDamage delta s) e \<and> reaches_core s e)
                 (enemies s)))"
          by linarith
        then have "coreHp s1 \<le> coreHp s - 10"
          unfolding commit_coreHp [OF c] by linarith
        then show ?thesis
          using commit_removed [OF c e] rc by blast
      qed
      with st show ?thesis by auto
    qed
  qed
  show ?thesis
    using commit_total [OF inv] frame_no_division_by_zero [OF inv] centre by blast
qed

theorem movement_never_divides_by_zero_witness:
  "reachable centre_state \<and>
   commit (1 / 60) centre_state = Inr (centre_state\<lparr>coreHp := 90, enemies := []\<rparr>) \<and>
   frame (1 / 60) 3000 top_centre centre_state \<noteq> Inl Division_by_zero \<and>
   fast_enemy\<lparr>e_x := 400, e_y := 300\<rparr> \<in> set (enemies centre_state) \<and>
   e_x (fast_enemy\<lparr>e_x := 400, e_y := 300\<rparr>) = coreX centre_state \<and>
   e_y (fast_enemy\<lparr>e_x := 400, e_y := 300\<rparr>) = coreY centre_state \<and>
   0 < hp_after (enemiesToDamage (1 / 60) centre_state) (fast_enemy\<lparr>e_x := 400, e_y := 300\<rparr>) \<and>
   coreHp (centre_state\<lparr>coreHp := 90, enemies := []\<rparr>) \<le> coreHp centre_state - 10"
proof -
  have r: "reachable centre_state"
    using reachable_run [OF reachable_initial run_centre_state] .
  have e: "fast_enemy\<lparr>e_x := 400, e_y := 300\<rparr> \<in> set (enemies centre_state)"
    by (simp add: centre_state_def)
  have at: "e_x (fast_enemy\<lparr>e_x := 400, e_y := 300\<rparr>) = coreX centre_state \<and>
            e_y (fast_enemy\<lparr>e_x := 400, e_y := 300\<rparr>) = coreY centre_state"
    by (simp add: centre_state_def coreX_def coreY_def)
  have pos: "0 < hp_after (enemiesToDamage (1 / 60) centre_state) (fast_enemy\<lparr>e_x := 400, e_y := 300\<rparr>)"
    by (simp add: hp_after_def total_def enemiesToDamage_def centre_state_def fast_enemy_def)
  have "coreHp (centre_state\<lparr>coreHp := 90, enemies := []\<rparr>) \<le> coreHp centre_state - 10"
    using movement_never_divides_by_zero [OF r, of "1 / 60" 3000 top_centre] e at pos
      commit_centre_state by blast
  then show ?thesis
    using movement_never_divides_by_zero [OF r, of "1 / 60" 3000 top_centre] r e at pos
      commit_centre_state by blast
qed



section \<open>Two places where the code leaves the finite numbers\<close>

text \<open>
  Claim C7, at the input where the code departs from it. From the initial state on an
  800 by 600 stage, the catalog is loaded, the first wave puts a fast enemy at the middle
  of the right edge, and one frame of 5.125 seconds carries it exactly onto the core's
  centre. At the next tick of the fire interval the nearest enemy is at distance zero,
  and the controller computes the bullet's direction as zero divided by zero.
\<close>

theorem fire_at_enemy_on_core:
  "run [Load_waves fast_catalog, Bootstrap 1000 right_centre, Frame (41 / 8) 2000 top_centre]
     (initial 800 600) = Inr centre_state \<and>
   enemies centre_state = [fast_enemy\<lparr>e_x := 400, e_y := 300\<rparr>] \<and>
   coreX centre_state = 400 \<and> coreY centre_state = 300 \<and>
   fire 6000 centre_state = Inl Division_by_zero"
proof -
  have "fire 6000 centre_state = Inl Division_by_zero"
    by (simp add: fire_def centre_state_def fast_enemy_def closer_def coreX_def coreY_def
          distance_self)
  then show ?thesis
    using run_centre_state by (simp add: centre_state_def coreX_def coreY_def)
qed

text \<open>
  Claim C6, at the input where the code departs from it. The kind \<open>constructor\<close> is not
  in the stat table, yet the table lookup finds the property of that name that every
  object inherits, the fallback to the normal profile is not taken, and the enemies of
  the group are built from fields that are undefined.
\<close>

theorem spawnWave_inherited_kind:
  "ENEMY_STATS ''constructor'' = Inherited \<and> stats_or_normal ''constructor'' = None \<and>
   spawnWave 1000 top_centre 1 ((initial 800 600)\<lparr>waves := constructor_catalog\<rparr>) =
     Inl Undefined_stats \<and>
   run [Load_waves constructor_catalog, Bootstrap 1000 top_centre] (initial 800 600) =
     Inl Undefined_stats"
  by (simp add: ENEMY_STATS_def stats_or_normal_def object_prototype_keys_def spawnWave_def
        constructor_catalog_def initial_def bootstrap_def)

end
